theory Spec2Isabelle
  imports Complex_Main
begin

section \<open>Finite-difference option pricing (src/m.py)\<close>

text \<open>
  The solver classes of \<^verbatim>\<open>src/m.py\<close> as records, one per class, extended the way
  the classes inherit. Python floats are read as real numbers; the exceptions the code can
  raise are values of \<open>error\<close>. The counts \<open>M\<close> and \<open>N\<close> are natural numbers.
\<close>

datatype error = ZeroDivisionError | IndexError | ValueError

type_synonym vec = "real list"
type_synonym matrix = "real list list"

subsection \<open>The NumPy operations the solvers use\<close>

definition np_arange :: "nat \<Rightarrow> nat list" where
  "np_arange n = [0..<n]"

text \<open>\<^verbatim>\<open>np.linspace(start, stop, num)\<close>: \<open>num\<close> evenly spaced points, both ends included.\<close>

definition np_linspace :: "real \<Rightarrow> real \<Rightarrow> nat \<Rightarrow> vec" where
  "np_linspace start stop num =
     map (\<lambda>i. start + real i * ((stop - start) / real (num - 1))) [0..<num]"

definition np_zeros :: "nat \<Rightarrow> vec" where
  "np_zeros n = replicate n 0"

definition np_zeros2 :: "nat \<Rightarrow> nat \<Rightarrow> matrix" where
  "np_zeros2 m n = replicate m (np_zeros n)"

text \<open>\<^verbatim>\<open>xs[lo:hi]\<close> for non-negative bounds.\<close>

definition slice :: "nat \<Rightarrow> nat \<Rightarrow> 'a list \<Rightarrow> 'a list" where
  "slice lo hi xs = drop lo (take hi xs)"

text \<open>\<^verbatim>\<open>g[i, j] = v\<close>.\<close>

definition grid_set :: "matrix \<Rightarrow> nat \<Rightarrow> nat \<Rightarrow> real \<Rightarrow> matrix" where
  "grid_set g i j v = g[i := (g ! i)[j := v]]"

text \<open>\<^verbatim>\<open>g[:, j] = v\<close>: column \<open>j\<close> of every row.\<close>

definition set_column :: "matrix \<Rightarrow> nat \<Rightarrow> vec \<Rightarrow> matrix" where
  "set_column g j v = map (\<lambda>i. (g ! i)[j := v ! i]) [0..<length g]"

text \<open>\<^verbatim>\<open>g[i, :-1] = v\<close>: every column of row \<open>i\<close> but the last.\<close>

definition set_row_init :: "matrix \<Rightarrow> nat \<Rightarrow> vec \<Rightarrow> matrix" where
  "set_row_init g i v =
     g[i := map (\<lambda>j. if j < length (g ! i) - 1 then v ! j else g ! i ! j) [0..<length (g ! i)]]"

text \<open>\<^verbatim>\<open>g[:, j]\<close>.\<close>

definition column :: "matrix \<Rightarrow> nat \<Rightarrow> vec" where
  "column g j = map (\<lambda>row. row ! j) g"

text \<open>
  \<^verbatim>\<open>np.interp(x, xp, fp)\<close> as NumPy documents it: the piecewise linear interpolant through
  the points \<open>(xp, fp)\<close>, \<open>fp[0]\<close> left of the first point and \<open>fp[-1]\<close> right of the last,
  and the stored value at a sample point. The bracketing interval is found by a scan from
  the left (NumPy searches by bisection; the two agree on increasing \<open>xp\<close>).
\<close>

fun interp_scan :: "real \<Rightarrow> vec \<Rightarrow> vec \<Rightarrow> real" where
  "interp_scan x (x0 # x1 # xs) (y0 # y1 # ys) =
     (if x < x1 then (if x = x0 then y0 else (y1 - y0) / (x1 - x0) * (x - x0) + y0)
      else interp_scan x (x1 # xs) (y1 # ys))"
| "interp_scan x [x0] (y0 # ys) = y0"
| "interp_scan x xs ys = 0"

definition np_interp :: "real \<Rightarrow> vec \<Rightarrow> vec \<Rightarrow> error + real" where
  "np_interp x xp fp =
     (if xp = [] \<or> length xp \<noteq> length fp then Inl ValueError
      else if last xp < x then Inr (last fp)
      else if x < hd xp then Inr (hd fp)
      else Inr (interp_scan x xp fp))"

subsection \<open>FiniteDifferences: the shared base\<close>

record FiniteDifferences =
  S0 :: real
  K :: real
  r :: real
  T :: real
  sigma :: real
  Smax :: real
  M :: nat
  N :: nat
  is_call :: bool
  i_values :: vec
  j_values :: "nat list"
  grid :: matrix
  boundary_conds :: vec

definition FiniteDifferences_init ::
  "real \<Rightarrow> real \<Rightarrow> real \<Rightarrow> real \<Rightarrow> real \<Rightarrow> real \<Rightarrow> nat \<Rightarrow> nat \<Rightarrow> bool \<Rightarrow> FiniteDifferences" where
  "FiniteDifferences_init s0 k rate t sg smax m n is_put =
     \<lparr> S0 = s0, K = k, r = rate, T = t, sigma = sg, Smax = smax, M = m, N = n,
       is_call = (\<not> is_put),
       i_values = map real (np_arange m),
       j_values = np_arange n,
       grid = np_zeros2 (m + 1) (n + 1),
       boundary_conds = np_linspace 0 smax (m + 1) \<rparr>"

text \<open>\<^verbatim>\<open>self.T/float(self.N)\<close>: Python raises on a float division by zero.\<close>

definition dt :: "'z FiniteDifferences_scheme \<Rightarrow> error + real" where
  "dt s = (if N s = 0 then Inl ZeroDivisionError else Inr (T s / real (N s)))"

definition dS :: "'z FiniteDifferences_scheme \<Rightarrow> error + real" where
  "dS s = (if M s = 0 then Inl ZeroDivisionError else Inr (Smax s / real (M s)))"

text \<open>The base \<^verbatim>\<open>interpolate\<close>: \<^verbatim>\<open>np.interp(S0, boundary_conds, grid[:,0])\<close>.\<close>

definition interpolate :: "'z FiniteDifferences_scheme \<Rightarrow> error + real" where
  "interpolate s = np_interp (S0 s) (boundary_conds s) (column (grid s) 0)"

subsection \<open>FDExplicitEu\<close>

record FDExplicitEu = FiniteDifferences +
  a :: vec
  b :: vec
  c :: vec

definition FDExplicitEu_init ::
  "real \<Rightarrow> real \<Rightarrow> real \<Rightarrow> real \<Rightarrow> real \<Rightarrow> real \<Rightarrow> nat \<Rightarrow> nat \<Rightarrow> bool \<Rightarrow> FDExplicitEu" where
  "FDExplicitEu_init s0 k rate t sg smax m n is_put =
     FiniteDifferences.extend (FiniteDifferences_init s0 k rate t sg smax m n is_put)
       (FDExplicitEu.fields [] [] [])"

text \<open>
  \<^verbatim>\<open>(coef) * np.exp(-self.r*self.dt*(self.N-self.j_values))\<close>, one entry per time index
  of \<open>j_values\<close>.
\<close>

definition discounted :: "'z FiniteDifferences_scheme \<Rightarrow> real \<Rightarrow> real \<Rightarrow> vec" where
  "discounted s d coef =
     map (\<lambda>j. coef * exp (- r s * d * (real (N s) - real j))) (j_values s)"

text \<open>
  In a grid of shape \<open>(M+1, N+1)\<close> the row index \<open>-1\<close> is \<open>M\<close> and the column index \<open>-1\<close>
  is \<open>N\<close>. The terminal column is written before \<open>dt\<close> is read.
\<close>

definition setup_boundary_conditions ::
  "'z FDExplicitEu_scheme \<Rightarrow> error + 'z FDExplicitEu_scheme" where
  "setup_boundary_conditions s =
     (if is_call s then
        (let g1 = set_column (grid s) (N s) (map (\<lambda>x. max 0 (x - K s)) (boundary_conds s))
         in case dt s of
              Inl e \<Rightarrow> Inl e
            | Inr d \<Rightarrow> Inr (s\<lparr>grid := set_row_init g1 (M s) (discounted s d (Smax s - K s))\<rparr>))
      else
        (let g1 = set_column (grid s) (N s) (map (\<lambda>x. max 0 (K s - x)) (boundary_conds s))
         in case dt s of
              Inl e \<Rightarrow> Inl e
            | Inr d \<Rightarrow> Inr (s\<lparr>grid := set_row_init g1 0 (discounted s d (K s - Smax s))\<rparr>)))"

definition setup_coefficients ::
  "'z FDExplicitEu_scheme \<Rightarrow> error + 'z FDExplicitEu_scheme" where
  "setup_coefficients s =
     (case dt s of
        Inl e \<Rightarrow> Inl e
      | Inr d \<Rightarrow> Inr (s\<lparr>
          a := map (\<lambda>i. 0.5 * d * ((sigma s)\<^sup>2 * i\<^sup>2 - r s * i)) (i_values s),
          b := map (\<lambda>i. 1 - d * ((sigma s)\<^sup>2 * i\<^sup>2 + r s)) (i_values s),
          c := map (\<lambda>i. 0.5 * d * ((sigma s)\<^sup>2 * i\<^sup>2 + r s * i)) (i_values s)\<rparr>))"

text \<open>The right-hand side of the assignment in the inner loop of \<^verbatim>\<open>traverse_grid\<close>.\<close>

definition explicit_cell :: "'z FDExplicitEu_scheme \<Rightarrow> matrix \<Rightarrow> nat \<Rightarrow> nat \<Rightarrow> real" where
  "explicit_cell s g i j =
     a s ! i * g ! (i - 1) ! (j + 1) + b s ! i * g ! i ! (j + 1) + c s ! i * g ! (i + 1) ! (j + 1)"

text \<open>\<^verbatim>\<open>for i in range(self.M)[2:]\<close>, for one \<open>j\<close>.\<close>

fun explicit_rows :: "'z FDExplicitEu_scheme \<Rightarrow> nat \<Rightarrow> nat list \<Rightarrow> matrix \<Rightarrow> matrix" where
  "explicit_rows s j [] g = g"
| "explicit_rows s j (i # is) g = explicit_rows s j is (grid_set g i j (explicit_cell s g i j))"

text \<open>\<^verbatim>\<open>for j in reversed(self.j_values)\<close>.\<close>

fun explicit_cols :: "'z FDExplicitEu_scheme \<Rightarrow> nat list \<Rightarrow> matrix \<Rightarrow> matrix" where
  "explicit_cols s [] g = g"
| "explicit_cols s (j # js) g = explicit_cols s js (explicit_rows s j [2..<M s] g)"

definition traverse_grid :: "'z FDExplicitEu_scheme \<Rightarrow> 'z FDExplicitEu_scheme" where
  "traverse_grid s = s\<lparr>grid := explicit_cols s (rev (j_values s)) (grid s)\<rparr>"

text \<open>\<^verbatim>\<open>price\<close> for the explicit scheme.\<close>

definition price :: "'z FDExplicitEu_scheme \<Rightarrow> error + real" where
  "price s =
     (case setup_boundary_conditions s of
        Inl e \<Rightarrow> Inl e
      | Inr s1 \<Rightarrow>
          (case setup_coefficients s1 of
             Inl e \<Rightarrow> Inl e
           | Inr s2 \<Rightarrow> interpolate (traverse_grid s2)))"

text \<open>
  The shape \<^verbatim>\<open>__init__\<close> gives the grid and the time indices: \<open>M+1\<close> rows of
  \<open>N+1\<close> columns, and \<open>j_values = arange(N)\<close>.
\<close>

definition well_shaped :: "'z FiniteDifferences_scheme \<Rightarrow> bool" where
  "well_shaped s \<longleftrightarrow>
     length (grid s) = M s + 1 \<and> list_all (\<lambda>row. length row = N s + 1) (grid s) \<and>
     j_values s = np_arange (N s)"

subsection \<open>FDCnEu\<close>

record FDCnEu = FDExplicitEu +
  alpha :: vec
  beta :: vec
  gamma :: vec
  M1 :: matrix
  M2 :: matrix

definition FDCnEu_init ::
  "real \<Rightarrow> real \<Rightarrow> real \<Rightarrow> real \<Rightarrow> real \<Rightarrow> real \<Rightarrow> nat \<Rightarrow> nat \<Rightarrow> bool \<Rightarrow> FDCnEu" where
  "FDCnEu_init s0 k rate t sg smax m n is_put =
     FDExplicitEu.extend (FDExplicitEu_init s0 k rate t sg smax m n is_put)
       (FDCnEu.fields [] [] [] [] [])"

text \<open>
  \<^verbatim>\<open>np.diag(v, k)\<close>: the square matrix of size \<open>len(v) + |k|\<close> with \<open>v\<close> on the
  \<open>k\<close>-th diagonal (entry \<open>[i, i+k]\<close> for \<open>k \<ge> 0\<close>, \<open>[i-k, i]\<close> for \<open>k < 0\<close>).
\<close>

definition np_diag :: "vec \<Rightarrow> int \<Rightarrow> matrix" where
  "np_diag v k =
     (let n = length v + nat \<bar>k\<bar>
      in map (\<lambda>i. map (\<lambda>j. if int j - int i = k then v ! min i j else 0) [0..<n]) [0..<n])"

text \<open>
  Entrywise sum, difference and negation. The operands have the same shape whenever
  \<open>M \<ge> 2\<close>; below that NumPy broadcasts a 1 by 1 against a 0 by 0 matrix to 0 by 0,
  which is what zipping gives.
\<close>

definition mat_add :: "matrix \<Rightarrow> matrix \<Rightarrow> matrix" where
  "mat_add A B = map2 (map2 (+)) A B"

definition mat_sub :: "matrix \<Rightarrow> matrix \<Rightarrow> matrix" where
  "mat_sub A B = map2 (map2 (-)) A B"

definition mat_neg :: "matrix \<Rightarrow> matrix" where
  "mat_neg A = map (map uminus) A"

text \<open>\<^verbatim>\<open>np.dot(A, v)\<close> for a matrix and a vector.\<close>

definition np_dot :: "matrix \<Rightarrow> vec \<Rightarrow> vec" where
  "np_dot A v = map (\<lambda>row. sum_list (map2 (*) row v)) A"

definition setup_coefficients_cn :: "'z FDCnEu_scheme \<Rightarrow> error + 'z FDCnEu_scheme" where
  "setup_coefficients_cn s =
     (case dt s of
        Inl e \<Rightarrow> Inl e
      | Inr d \<Rightarrow>
          (let al = map (\<lambda>i. 0.25 * d * ((sigma s)\<^sup>2 * i\<^sup>2 - r s * i)) (i_values s);
               be = map (\<lambda>i. - d * 0.5 * ((sigma s)\<^sup>2 * i\<^sup>2 + r s)) (i_values s);
               ga = map (\<lambda>i. 0.25 * d * ((sigma s)\<^sup>2 * i\<^sup>2 + r s * i)) (i_values s)
           in Inr (s\<lparr>alpha := al, beta := be, gamma := ga,
                M1 := mat_sub
                        (mat_add (mat_neg (np_diag (slice 2 (M s) al) (- 1)))
                                 (np_diag (map (\<lambda>x. 1 - x) (slice 1 (M s) be)) 0))
                        (np_diag (slice 1 (M s - 1) ga) 1),
                M2 := mat_add
                        (mat_add (np_diag (slice 2 (M s) al) (- 1))
                                 (np_diag (map (\<lambda>x. 1 + x) (slice 1 (M s) be)) 0))
                        (np_diag (slice 1 (M s - 1) ga) 1)\<rparr>)))"

text \<open>
  \<^verbatim>\<open>scipy.linalg.lu\<close> and \<^verbatim>\<open>scipy.linalg.solve\<close> are library routines; the traversal
  takes them as parameters. \<open>lu A\<close> returns the factors \<open>(P, L, U)\<close>, \<open>solve A y\<close> the
  solution of \<open>A x = y\<close>, and either may fail.
\<close>

type_synonym lu_fun = "matrix \<Rightarrow> error + (matrix \<times> matrix \<times> matrix)"
type_synonym solve_fun = "matrix \<Rightarrow> vec \<Rightarrow> error + vec"

text \<open>
  \<^verbatim>\<open>g[lo:hi, j] = v\<close>: the value needs \<open>hi - lo\<close> entries, or a single one, which NumPy
  broadcasts; anything else is a ValueError.
\<close>

definition set_column_slice :: "matrix \<Rightarrow> nat \<Rightarrow> nat \<Rightarrow> nat \<Rightarrow> vec \<Rightarrow> error + matrix" where
  "set_column_slice g lo hi j v =
     (if length v = hi - lo then
        Inr (map (\<lambda>i. if lo \<le> i \<and> i < hi then (g ! i)[j := v ! (i - lo)] else g ! i)
               [0..<length g])
      else if length v = 1 then
        Inr (map (\<lambda>i. if lo \<le> i \<and> i < hi then (g ! i)[j := v ! 0] else g ! i) [0..<length g])
      else Inl ValueError)"

text \<open>The body of \<^verbatim>\<open>for j in reversed(range(self.N))\<close> in \<^verbatim>\<open>FDCnEu.traverse_grid\<close>.\<close>

fun cn_steps ::
  "solve_fun \<Rightarrow> 'z FDCnEu_scheme \<Rightarrow> matrix \<Rightarrow> matrix \<Rightarrow> nat list \<Rightarrow> matrix \<Rightarrow> error + matrix" where
  "cn_steps solve s L U [] g = Inr g"
| "cn_steps solve s L U (j # js) g =
     (case solve L (np_dot (M2 s) (slice 1 (M s) (column g (j + 1)))) of
        Inl e \<Rightarrow> Inl e
      | Inr x1 \<Rightarrow>
          (case solve U x1 of
             Inl e \<Rightarrow> Inl e
           | Inr x2 \<Rightarrow>
               (case set_column_slice g 1 (M s) j x2 of
                  Inl e \<Rightarrow> Inl e
                | Inr g' \<Rightarrow> cn_steps solve s L U js g')))"

definition traverse_grid_cn ::
  "lu_fun \<Rightarrow> solve_fun \<Rightarrow> 'z FDCnEu_scheme \<Rightarrow> error + 'z FDCnEu_scheme" where
  "traverse_grid_cn lu solve s =
     (case lu (M1 s) of
        Inl e \<Rightarrow> Inl e
      | Inr (P, L, U) \<Rightarrow>
          (case cn_steps solve s L U (rev [0..<N s]) (grid s) of
             Inl e \<Rightarrow> Inl e
           | Inr g \<Rightarrow> Inr (s\<lparr>grid := g\<rparr>)))"

definition price_cn :: "lu_fun \<Rightarrow> solve_fun \<Rightarrow> 'z FDCnEu_scheme \<Rightarrow> error + real" where
  "price_cn lu solve s =
     (case setup_boundary_conditions s of
        Inl e \<Rightarrow> Inl e
      | Inr s1 \<Rightarrow>
          (case setup_coefficients_cn s1 of
             Inl e \<Rightarrow> Inl e
           | Inr s2 \<Rightarrow>
               (case traverse_grid_cn lu solve s2 of
                  Inl e \<Rightarrow> Inl e
                | Inr s3 \<Rightarrow> interpolate s3)))"

subsection \<open>FDCnDo\<close>

record FDCnDo = FDCnEu +
  barrier :: real

text \<open>
  The constructor replaces the price axis by \<open>linspace(Sbarrier, Smax, M+1)\<close> and
  \<open>i_values\<close> by \<open>boundary_conds/dS\<close> with \<open>dS = (Smax - Sbarrier)/float(M)\<close>, which raises
  for \<open>M = 0\<close>. (For \<open>Smax = Sbarrier\<close> the floating-point quotient has infinite or NaN
  entries; the quotient by zero is \<open>0\<close> here.)
\<close>

definition dS_do :: "'z FDCnDo_scheme \<Rightarrow> error + real" where
  "dS_do s =
     (if M s = 0 then Inl ZeroDivisionError else Inr ((Smax s - barrier s) / real (M s)))"

definition FDCnDo_init ::
  "real \<Rightarrow> real \<Rightarrow> real \<Rightarrow> real \<Rightarrow> real \<Rightarrow> real \<Rightarrow> real \<Rightarrow> nat \<Rightarrow> nat \<Rightarrow> bool \<Rightarrow> error + FDCnDo" where
  "FDCnDo_init s0 k rate t sg sbarrier smax m n is_put =
     (let s = FDCnEu.extend (FDCnEu_init s0 k rate t sg smax m n is_put)
                (FDCnDo.fields sbarrier);
          s = s\<lparr>boundary_conds := np_linspace sbarrier smax (m + 1)\<rparr>
      in case dS_do s of
           Inl e \<Rightarrow> Inl e
         | Inr d \<Rightarrow> Inr (s\<lparr>i_values := map (\<lambda>x. x / d) (boundary_conds s)\<rparr>))"

subsection \<open>FDCnAm\<close>

record FDCnAm = FDCnEu +
  omega :: real
  tol :: real
  payoffs :: vec
  past_values :: vec
  boundary_values :: vec
  values_am :: vec

definition FDCnAm_init ::
  "real \<Rightarrow> real \<Rightarrow> real \<Rightarrow> real \<Rightarrow> real \<Rightarrow> real \<Rightarrow> nat \<Rightarrow> nat \<Rightarrow> real \<Rightarrow> real \<Rightarrow> bool \<Rightarrow> FDCnAm" where
  "FDCnAm_init s0 k rate t sg smax m n om tolerance is_put =
     (FDCnEu.extend (FDCnEu_init s0 k rate t sg smax m n is_put)
        (FDCnAm.fields om tolerance [] [] [] []))
     \<lparr>i_values := map real (np_arange (m + 1)), j_values := np_arange (n + 1)\<rparr>"

text \<open>The payoffs are stored before \<open>dt\<close> is read.\<close>

definition setup_boundary_conditions_am :: "'z FDCnAm_scheme \<Rightarrow> error + 'z FDCnAm_scheme" where
  "setup_boundary_conditions_am s =
     (let po = (if is_call s
                then map (\<lambda>x. max 0 (x - K s)) (slice 1 (M s) (boundary_conds s))
                else map (\<lambda>x. max 0 (K s - x)) (slice 1 (M s) (boundary_conds s)))
      in case dt s of
           Inl e \<Rightarrow> Inl e
         | Inr d \<Rightarrow>
             Inr (s\<lparr>payoffs := po, past_values := po,
                    boundary_values := discounted s d (K s)\<rparr>))"

text \<open>
  The three update formulas. An index outside an array raises IndexError; the indices
  \<open>-1\<close> and \<open>-2\<close> count from the end (so \<open>new_values[k-1]\<close> is the last entry
  for \<open>k = 0\<close>). (\<open>1 - beta\<close> is a NumPy scalar: a zero divisor
  gives an infinite quotient in floating point and \<open>0\<close> here.)
\<close>

definition calculate_payoff_start_boundary ::
  "'z FDCnAm_scheme \<Rightarrow> vec \<Rightarrow> vec \<Rightarrow> error + real" where
  "calculate_payoff_start_boundary s rhs old_values =
     (if length old_values < 2 \<or> length (beta s) < 2 \<or> length rhs < 1 \<or>
         length (gamma s) < 2 \<or> length (payoffs s) < 1
      then Inl IndexError
      else
        (let payoff = old_values ! 0 +
               omega s / (1 - beta s ! 1) *
                 (rhs ! 0 - (1 - beta s ! 1) * old_values ! 0 + gamma s ! 1 * old_values ! 1)
         in Inr (max (payoffs s ! 0) payoff)))"

definition calculate_payoff_end_boundary ::
  "'z FDCnAm_scheme \<Rightarrow> vec \<Rightarrow> vec \<Rightarrow> vec \<Rightarrow> error + real" where
  "calculate_payoff_end_boundary s rhs old_values new_values =
     (if length old_values < 1 \<or> length (beta s) < 2 \<or> length rhs < 1 \<or>
         length (alpha s) < 2 \<or> length new_values < 2 \<or> length (payoffs s) < 1
      then Inl IndexError
      else
        (let payoff = last old_values +
               omega s / (1 - beta s ! (length (beta s) - 2)) *
                 (last rhs +
                  alpha s ! (length (alpha s) - 2) * new_values ! (length new_values - 2) -
                  (1 - beta s ! (length (beta s) - 2)) * last old_values)
         in Inr (max (last (payoffs s)) payoff)))"

definition calculate_payoff ::
  "'z FDCnAm_scheme \<Rightarrow> nat \<Rightarrow> vec \<Rightarrow> vec \<Rightarrow> vec \<Rightarrow> error + real" where
  "calculate_payoff s k rhs old_values new_values =
     (if length old_values \<le> k + 1 \<or> length (beta s) \<le> k + 1 \<or> length rhs \<le> k \<or>
         length (alpha s) \<le> k + 1 \<or> (if k = 0 then new_values = [] else length new_values < k) \<or>
         length (gamma s) \<le> k + 1 \<or> length (payoffs s) \<le> k
      then Inl IndexError
      else
        (let payoff = old_values ! k +
               omega s / (1 - beta s ! (k + 1)) *
                 (rhs ! k +
                  alpha s ! (k + 1) * (if k = 0 then last new_values else new_values ! (k - 1)) -
                  (1 - beta s ! (k + 1)) * old_values ! k +
                  gamma s ! (k + 1) * old_values ! (k + 1))
         in Inr (max (payoffs s ! k) payoff)))"

text \<open>\<^verbatim>\<open>xs[i] = v\<close> and \<^verbatim>\<open>xs[-1] = v\<close> on a vector.\<close>

definition vec_set :: "vec \<Rightarrow> nat \<Rightarrow> real \<Rightarrow> error + vec" where
  "vec_set xs i v = (if i < length xs then Inr (xs[i := v]) else Inl IndexError)"

definition vec_set_last :: "vec \<Rightarrow> real \<Rightarrow> error + vec" where
  "vec_set_last xs v = (if xs = [] then Inl IndexError else Inr (xs[length xs - 1 := v]))"

text \<open>\<^verbatim>\<open>for k in range(self.M-2)[1:]\<close>.\<close>

fun psor_interior ::
  "'z FDCnAm_scheme \<Rightarrow> vec \<Rightarrow> vec \<Rightarrow> nat list \<Rightarrow> vec \<Rightarrow> error + vec" where
  "psor_interior s rhs old_values [] new_values = Inr new_values"
| "psor_interior s rhs old_values (k # ks) new_values =
     (case calculate_payoff s k rhs old_values new_values of
        Inl e \<Rightarrow> Inl e
      | Inr v \<Rightarrow>
          (case vec_set new_values k v of
             Inl e \<Rightarrow> Inl e
           | Inr new' \<Rightarrow> psor_interior s rhs old_values ks new'))"

text \<open>One pass of the body of the \<^verbatim>\<open>while\<close> loop over \<open>new_values\<close>.\<close>

definition psor_sweep :: "'z FDCnAm_scheme \<Rightarrow> vec \<Rightarrow> vec \<Rightarrow> vec \<Rightarrow> error + vec" where
  "psor_sweep s rhs old_values new_values =
     (case calculate_payoff_start_boundary s rhs old_values of
        Inl e \<Rightarrow> Inl e
      | Inr v0 \<Rightarrow>
          (case vec_set new_values 0 v0 of
             Inl e \<Rightarrow> Inl e
           | Inr new1 \<Rightarrow>
               (case psor_interior s rhs old_values [1..<M s - 2] new1 of
                  Inl e \<Rightarrow> Inl e
                | Inr new2 \<Rightarrow>
                    (case calculate_payoff_end_boundary s rhs old_values new2 of
                       Inl e \<Rightarrow> Inl e
                     | Inr vl \<Rightarrow> vec_set_last new2 vl))))"

text \<open>\<^verbatim>\<open>np.linalg.norm(new_values - old_values)\<close>: the Euclidean norm.\<close>

definition norm_diff :: "vec \<Rightarrow> vec \<Rightarrow> real" where
  "norm_diff xs ys = sqrt (sum_list (map (\<lambda>(x, y). (x - y)\<^sup>2) (zip xs ys)))"

text \<open>\<^verbatim>\<open>sys.float_info.max\<close>, the largest finite double.\<close>

definition float_max :: real where
  "float_max = (2 ^ 53 - 1) * 2 ^ 971"

text \<open>
  The variables of the \<^verbatim>\<open>while\<close> loop: the locals \<open>error\<close>, \<open>old_values\<close>,
  \<open>new_values\<close>, and \<open>self.past_values\<close> as \<open>past\<close>.
\<close>

record psor_vars =
  error :: real
  old_values :: vec
  new_values :: vec
  past :: vec

text \<open>
  \<^verbatim>\<open>while self.tol < error\<close>. The loop has no other exit, so it is a partial function:
  \<open>None\<close> is a loop that runs forever, \<open>Some (Inl e)\<close> an exception inside a sweep.
\<close>

partial_function (option) psor_while ::
  "'z FDCnAm_scheme \<Rightarrow> vec \<Rightarrow> psor_vars \<Rightarrow> (error + psor_vars) option" where
  "psor_while s rhs v =
     (if tol s < error v then
        (case psor_sweep s rhs (old_values v) (new_values v) of
           Inl e \<Rightarrow> Some (Inl e)
         | Inr new \<Rightarrow>
             psor_while s rhs
               \<lparr>error = norm_diff new (old_values v), old_values = new,
                new_values = new, past = new\<rparr>)
      else Some (Inr v))"

text \<open>
  The time loop of \<^verbatim>\<open>FDCnAm.traverse_grid\<close>; \<open>aux\<close>, \<open>new_values\<close> and
  \<open>self.past_values\<close> are carried from one time step to the next.
\<close>

fun am_steps ::
  "'z FDCnAm_scheme \<Rightarrow> nat list \<Rightarrow> vec \<Rightarrow> vec \<Rightarrow> vec \<Rightarrow> (error + vec \<times> vec \<times> vec) option" where
  "am_steps s [] aux new_vals past_vals = Some (Inr (aux, new_vals, past_vals))"
| "am_steps s (j # js) aux new_vals past_vals =
     (if length (alpha s) < 2 \<or> length (boundary_values s) \<le> j + 1 \<or> aux = []
      then Some (Inl IndexError)
      else
        (let aux' = aux[0 := alpha s ! 1 * (boundary_values s ! j + boundary_values s ! (j + 1))];
             rhs = map2 (+) (np_dot (M2 s) past_vals) aux'
         in case psor_while s rhs
                   \<lparr>error = float_max, old_values = past_vals,
                    new_values = new_vals, past = past_vals\<rparr> of
              None \<Rightarrow> None
            | Some (Inl e) \<Rightarrow> Some (Inl e)
            | Some (Inr v) \<Rightarrow> am_steps s js aux' (new_values v) (past v)))"

text \<open>\<^verbatim>\<open>np.zeros(self.M-1)\<close> raises for \<open>M = 0\<close> (a negative dimension).\<close>

definition traverse_grid_am :: "'z FDCnAm_scheme \<Rightarrow> (error + 'z FDCnAm_scheme) option" where
  "traverse_grid_am s =
     (if M s = 0 then Some (Inl ValueError)
      else
        (case am_steps s (rev [0..<N s]) (np_zeros (M s - 1)) (np_zeros (M s - 1))
                (past_values s) of
           None \<Rightarrow> None
         | Some (Inl e) \<Rightarrow> Some (Inl e)
         | Some (Inr (aux, new_vals, past_vals)) \<Rightarrow>
             (if boundary_values s = [] then Some (Inl IndexError)
              else Some (Inr (s\<lparr>past_values := past_vals,
                     values_am := [boundary_values s ! 0] @ new_vals @ [0]\<rparr>)))))"

definition interpolate_am :: "'z FDCnAm_scheme \<Rightarrow> error + real" where
  "interpolate_am s = np_interp (S0 s) (boundary_conds s) (values_am s)"

definition price_am :: "'z FDCnAm_scheme \<Rightarrow> (error + real) option" where
  "price_am s =
     (case setup_boundary_conditions_am s of
        Inl e \<Rightarrow> Some (Inl e)
      | Inr s1 \<Rightarrow>
          (case setup_coefficients_cn s1 of
             Inl e \<Rightarrow> Some (Inl e)
           | Inr s2 \<Rightarrow>
               (case traverse_grid_am s2 of
                  None \<Rightarrow> None
                | Some (Inl e) \<Rightarrow> Some (Inl e)
                | Some (Inr s3) \<Rightarrow> Some (interpolate_am s3))))"

subsection \<open>A small explicit-scheme instance\<close>

text \<open>
  A call with \<open>r = 0\<close> on a 5 by 3 grid, and its state after
  \<^verbatim>\<open>setup_boundary_conditions\<close> and \<^verbatim>\<open>setup_coefficients\<close>.
\<close>

definition explicit_demo :: FDExplicitEu where
  "explicit_demo = FDExplicitEu_init 1 1 0 1 1 4 4 2 False"

definition explicit_demo_ready :: FDExplicitEu where
  "explicit_demo_ready =
     \<lparr> S0 = 1, K = 1, r = 0, T = 1, sigma = 1, Smax = 4, M = 4, N = 2, is_call = True,
       i_values = [0, 1, 2, 3], j_values = [0, 1],
       grid = [ [0, 0, 0], [0, 0, 0], [0, 0, 1], [0, 0, 2], [3, 3, 3]],
       boundary_conds = [0, 1, 2, 3, 4],
       a = [0, 1/4, 1, 9/4], b = [1, 1/2, -1, -7/2], c = [0, 1/4, 1, 9/4] \<rparr>"

text \<open>
  A put with \<open>r = 0\<close> and the spot between the first two price nodes, its state after
  \<^verbatim>\<open>setup_boundary_conditions\<close>, and after \<^verbatim>\<open>setup_coefficients\<close>.
\<close>

definition put_demo :: FDExplicitEu where
  "put_demo = FDExplicitEu_init (1/2) 1 0 1 1 4 4 2 True"

definition put_demo_bounded :: FDExplicitEu where
  "put_demo_bounded =
     \<lparr> S0 = 1/2, K = 1, r = 0, T = 1, sigma = 1, Smax = 4, M = 4, N = 2, is_call = False,
       i_values = [0, 1, 2, 3], j_values = [0, 1],
       grid = [ [-3, -3, 1], [0, 0, 0], [0, 0, 0], [0, 0, 0], [0, 0, 0]],
       boundary_conds = [0, 1, 2, 3, 4],
       a = [], b = [], c = [] \<rparr>"

definition put_demo_ready :: FDExplicitEu where
  "put_demo_ready =
     put_demo_bounded\<lparr>a := [0, 1/4, 1, 9/4], b := [1, 1/2, -1, -7/2], c := [0, 1/4, 1, 9/4]\<rparr>"

text \<open>
  A Crank-Nicolson instance with \<open>M = 3\<close>, \<open>N = 1\<close>, \<open>sigma = 1\<close> and \<open>r = 0\<close>, before and
  after \<^verbatim>\<open>setup_coefficients\<close>.
\<close>

definition cn_demo :: FDCnEu where
  "cn_demo = FDCnEu_init 1 1 0 1 1 3 3 1 False"

definition cn_demo_ready :: FDCnEu where
  "cn_demo_ready =
     cn_demo\<lparr>alpha := [0, 1/4, 1], beta := [0, - 1/2, - 2], gamma := [0, 1/4, 1],
       M1 := [ [3/2, - 1/4], [- 1, 3]], M2 := [ [1/2, 1/4], [1, - 1]]\<rparr>"

text \<open>
  The LU factors and the solution of a 1 by 1 system, which is what
  \<^verbatim>\<open>scipy.linalg.lu\<close> and \<^verbatim>\<open>scipy.linalg.solve\<close> return for \<open>M = 2\<close>.
\<close>

definition lu1 :: lu_fun where
  "lu1 A = Inr ([ [1]], [ [1]], A)"

definition solve1 :: solve_fun where
  "solve1 A y = Inr [hd y / hd (hd A)]"

text \<open>
  A down-and-out put with barrier \<open>40\<close>, strike \<open>50\<close>, \<open>Smax = 100\<close>, \<open>M = 2\<close>,
  \<open>N = 1\<close>, \<open>r = 0\<close>: the states after the constructor, after
  \<^verbatim>\<open>setup_boundary_conditions\<close> and after \<^verbatim>\<open>setup_coefficients\<close>.
\<close>

definition do_put_demo :: FDCnDo where
  "do_put_demo =
     (FDCnEu.extend (FDCnEu_init 50 50 0 1 1 100 2 1 True) (FDCnDo.fields 40))
     \<lparr>boundary_conds := [40, 70, 100], i_values := [4/3, 7/3, 10/3]\<rparr>"

definition do_put_bounded :: FDCnDo where
  "do_put_bounded = do_put_demo\<lparr>grid := [ [- 50, 10], [0, 0], [0, 0]]\<rparr>"

definition do_put_ready :: FDCnDo where
  "do_put_ready =
     do_put_bounded\<lparr>alpha := [4/9, 49/36, 25/9], beta := [- 8/9, - 49/18, - 50/9],
       gamma := [4/9, 49/36, 25/9], M1 := [ [67/18]], M2 := [ [- 31/18]]\<rparr>"

text \<open>
  An American put with \<open>S0 = 1\<close>, \<open>K = 2\<close>, \<open>r = 0\<close>, \<open>T = 1\<close>, \<open>sigma = 1\<close>, \<open>Smax = 3\<close>,
  \<open>M = 3\<close>, \<open>N = 1\<close>, \<open>omega = 1\<close> and \<open>tol = 1\<close>: the states after the constructor, after
  \<^verbatim>\<open>setup_boundary_conditions\<close>, after \<^verbatim>\<open>setup_coefficients\<close> and after
  \<^verbatim>\<open>traverse_grid\<close>.
\<close>

definition am_demo :: FDCnAm where
  "am_demo = FDCnAm_init 1 2 0 1 1 3 3 1 1 1 True"

definition am_demo_bounded :: FDCnAm where
  "am_demo_bounded =
     am_demo\<lparr>payoffs := [1, 0], past_values := [1, 0], boundary_values := [2, 2]\<rparr>"

definition am_demo_ready :: FDCnAm where
  "am_demo_ready =
     am_demo_bounded\<lparr>alpha := [0, 1/4, 1, 9/4], beta := [0, - 1/2, - 2, - 9/2],
       gamma := [0, 1/4, 1, 9/4],
       M1 := [ [3/2, - 1/4], [- 1, 3]], M2 := [ [1/2, 1/4], [1, - 1]]\<rparr>"

definition am_demo_done :: FDCnAm where
  "am_demo_done = am_demo_ready\<lparr>past_values := [1, 2/3], values_am := [2, 1, 2/3, 0]\<rparr>"

text \<open>
  The body of the \<^verbatim>\<open>while\<close> loop, and the body run \<open>n\<close> times without the loop test.
\<close>

definition psor_step :: "'z FDCnAm_scheme \<Rightarrow> vec \<Rightarrow> psor_vars \<Rightarrow> error + psor_vars" where
  "psor_step s rhs v =
     (case psor_sweep s rhs (old_values v) (new_values v) of
        Inl e \<Rightarrow> Inl e
      | Inr new \<Rightarrow>
          Inr \<lparr>error = norm_diff new (old_values v), old_values = new,
               new_values = new, past = new\<rparr>)"

fun psor_iter :: "'z FDCnAm_scheme \<Rightarrow> vec \<Rightarrow> nat \<Rightarrow> psor_vars \<Rightarrow> error + psor_vars" where
  "psor_iter s rhs 0 v = Inr v"
| "psor_iter s rhs (Suc n) v =
     (case psor_step s rhs v of Inl e \<Rightarrow> Inl e | Inr v1 \<Rightarrow> psor_iter s rhs n v1)"

text \<open>
  The array lengths that the constructor and the two setup steps give a solver with
  \<open>M \<ge> 3\<close>, and the length of the right-hand side formed in a time step.
\<close>

definition psor_shapes :: "'z FDCnAm_scheme \<Rightarrow> vec \<Rightarrow> bool" where
  "psor_shapes s rhs \<longleftrightarrow>
     3 \<le> M s \<and> length rhs = M s - 1 \<and> length (payoffs s) = M s - 1 \<and>
     M s \<le> length (alpha s) \<and> M s \<le> length (beta s) \<and> M s \<le> length (gamma s)"

text \<open>The state of the same American put with \<open>tol = -1\<close>.\<close>

definition am_negative_tol :: FDCnAm where
  "am_negative_tol = am_demo_ready\<lparr>tol := - 1\<rparr>"

section \<open>Verified properties\<close>

subsection \<open>Grid updates\<close>

lemma grid_set_length [simp]: "length (grid_set g i j v) = length g"
  by (simp add: grid_set_def)

lemma grid_set_row_length [simp]: "length (grid_set g i j v ! k) = length (g ! k)"
  by (cases "i < length g"; cases "k = i") (simp_all add: grid_set_def list_update_beyond)

lemma grid_set_other: "k \<noteq> i \<or> l \<noteq> j \<Longrightarrow> grid_set g i j v ! k ! l = g ! k ! l"
  by (cases "i < length g"; cases "k = i") (auto simp add: grid_set_def list_update_beyond)

lemma grid_set_same: "i < length g \<Longrightarrow> j < length (g ! i) \<Longrightarrow> grid_set g i j v ! i ! j = v"
  by (simp add: grid_set_def)

lemma explicit_rows_length [simp]: "length (explicit_rows s j is g) = length g"
  by (induction "is" arbitrary: g) simp_all

lemma explicit_rows_row_length [simp]: "length (explicit_rows s j is g ! k) = length (g ! k)"
  by (induction "is" arbitrary: g) simp_all

lemma explicit_rows_other:
  "k \<notin> set is \<or> l \<noteq> j \<Longrightarrow> explicit_rows s j is g ! k ! l = g ! k ! l"
  by (induction "is" arbitrary: g) (auto simp add: grid_set_other)

lemma explicit_cell_cong:
  "(\<And>k. g' ! k ! (j + 1) = g ! k ! (j + 1)) \<Longrightarrow> explicit_cell s g' i j = explicit_cell s g i j"
  by (simp add: explicit_cell_def)

lemma explicit_rows_written:
  "distinct is \<Longrightarrow> i \<in> set is \<Longrightarrow> i < length g \<Longrightarrow> j < length (g ! i) \<Longrightarrow>
   explicit_rows s j is g ! i ! j = explicit_cell s g i j"
proof (induction "is" arbitrary: g)
  case Nil
  then show ?case by simp
next
  case (Cons i0 "is")
  let ?g1 = "grid_set g i0 j (explicit_cell s g i0 j)"
  show ?case
  proof (cases "i = i0")
    case True
    with Cons.prems have "explicit_rows s j is ?g1 ! i ! j = ?g1 ! i ! j"
      by (intro explicit_rows_other) simp
    with True Cons.prems show ?thesis by (simp add: grid_set_same)
  next
    case False
    with Cons.prems have "explicit_rows s j is ?g1 ! i ! j = explicit_cell s ?g1 i j"
      by (intro Cons.IH) simp_all
    also have "\<dots> = explicit_cell s g i j"
      by (rule explicit_cell_cong) (simp add: grid_set_other)
    finally show ?thesis by simp
  qed
qed

lemma explicit_cols_length [simp]: "length (explicit_cols s js g) = length g"
  by (induction js arbitrary: g) simp_all

lemma explicit_cols_row_length [simp]: "length (explicit_cols s js g ! k) = length (g ! k)"
  by (induction js arbitrary: g) simp_all

lemma explicit_cols_other:
  "k < 2 \<or> M s \<le> k \<or> l \<notin> set js \<Longrightarrow> explicit_cols s js g ! k ! l = g ! k ! l"
  by (induction js arbitrary: g) (auto simp add: explicit_rows_other)

lemma explicit_cols_recursion:
  "M s \<le> length g \<Longrightarrow> (\<And>k. k < M s \<Longrightarrow> n \<le> length (g ! k)) \<Longrightarrow>
   j < n \<Longrightarrow> 2 \<le> i \<Longrightarrow> i < M s \<Longrightarrow>
   explicit_cols s (rev [0..<n]) g ! i ! j = explicit_cell s (explicit_cols s (rev [0..<n]) g) i j"
proof (induction n arbitrary: g)
  case 0
  then show ?case by simp
next
  case (Suc n)
  let ?g1 = "explicit_rows s n [2..<M s] g"
  let ?g2 = "explicit_cols s (rev [0..<n]) ?g1"
  have unfold: "explicit_cols s (rev [0..<Suc n]) g = ?g2" by simp
  show ?case
  proof (cases "j = n")
    case True
    have "?g2 ! i ! n = ?g1 ! i ! n"
      by (rule explicit_cols_other) simp
    also have "\<dots> = explicit_cell s g i n"
      using Suc.prems by (intro explicit_rows_written) (simp_all add: Suc_le_eq)
    also have "\<dots> = explicit_cell s ?g1 i n"
      by (rule explicit_cell_cong [symmetric]) (simp add: explicit_rows_other)
    also have "\<dots> = explicit_cell s ?g2 i n"
      by (rule explicit_cell_cong [symmetric]) (simp add: explicit_cols_other)
    finally show ?thesis using True unfold by simp
  next
    case False
    with Suc.prems have "j < n" by simp
    moreover have "\<And>k. k < M s \<Longrightarrow> n \<le> length (?g1 ! k)"
      using Suc.prems(2) by (simp add: Suc_leD)
    ultimately have "?g2 ! i ! j = explicit_cell s ?g2 i j"
      using Suc.prems by (intro Suc.IH) simp_all
    then show ?thesis using unfold by simp
  qed
qed

subsection \<open>Boundary setup and shapes\<close>

lemma set_column_length [simp]: "length (set_column g j v) = length g"
  by (simp add: set_column_def)

lemma set_column_row_length [simp]:
  "k < length g \<Longrightarrow> length (set_column g j v ! k) = length (g ! k)"
  by (simp add: set_column_def)

lemma set_column_nth:
  "k < length g \<Longrightarrow> l < length (g ! k) \<Longrightarrow>
   set_column g j v ! k ! l = (if l = j then v ! k else g ! k ! l)"
  by (simp add: set_column_def)

lemma set_row_init_length [simp]: "length (set_row_init g i v) = length g"
  by (simp add: set_row_init_def)

lemma set_row_init_row_length [simp]: "length (set_row_init g i v ! k) = length (g ! k)"
  by (cases "i < length g"; cases "k = i") (simp_all add: set_row_init_def list_update_beyond)

lemma set_row_init_nth:
  "k < length g \<Longrightarrow> l < length (g ! k) \<Longrightarrow>
   set_row_init g i v ! k ! l = (if k = i \<and> l < length (g ! k) - 1 then v ! l else g ! k ! l)"
  by (cases "k = i") (simp_all add: set_row_init_def)

lemma np_zeros2_nth: "k < m \<Longrightarrow> l < n \<Longrightarrow> np_zeros2 m n ! k ! l = 0"
  by (simp add: np_zeros2_def np_zeros_def)

lemma well_shapedI:
  "length (grid s) = M s + 1 \<Longrightarrow> (\<And>k. k \<le> M s \<Longrightarrow> length (grid s ! k) = N s + 1) \<Longrightarrow>
   j_values s = np_arange (N s) \<Longrightarrow> well_shaped s"
  by (auto simp add: well_shaped_def list_all_length)

lemma well_shapedD:
  assumes "well_shaped s"
  shows "length (grid s) = M s + 1" and "k \<le> M s \<Longrightarrow> length (grid s ! k) = N s + 1"
    and "j_values s = np_arange (N s)"
  using assms by (auto simp add: well_shaped_def list_all_length)

lemma init_fields [simp]:
  "M (FDExplicitEu_init s0 k rate t sg smax m n p) = m"
  "N (FDExplicitEu_init s0 k rate t sg smax m n p) = n"
  "S0 (FDExplicitEu_init s0 k rate t sg smax m n p) = s0"
  "K (FDExplicitEu_init s0 k rate t sg smax m n p) = k"
  "r (FDExplicitEu_init s0 k rate t sg smax m n p) = rate"
  "T (FDExplicitEu_init s0 k rate t sg smax m n p) = t"
  "sigma (FDExplicitEu_init s0 k rate t sg smax m n p) = sg"
  "Smax (FDExplicitEu_init s0 k rate t sg smax m n p) = smax"
  "is_call (FDExplicitEu_init s0 k rate t sg smax m n p) = (\<not> p)"
  "i_values (FDExplicitEu_init s0 k rate t sg smax m n p) = map real (np_arange m)"
  "j_values (FDExplicitEu_init s0 k rate t sg smax m n p) = np_arange n"
  "grid (FDExplicitEu_init s0 k rate t sg smax m n p) = np_zeros2 (m + 1) (n + 1)"
  "boundary_conds (FDExplicitEu_init s0 k rate t sg smax m n p) = np_linspace 0 smax (m + 1)"
  by (simp_all add: FDExplicitEu_init_def FiniteDifferences_init_def FiniteDifferences.defs)

lemma np_zeros2_length [simp]: "length (np_zeros2 m n) = m"
  by (simp add: np_zeros2_def)

lemma np_zeros2_row_length [simp]: "k < m \<Longrightarrow> length (np_zeros2 m n ! k) = n"
  by (simp add: np_zeros2_def np_zeros_def)

lemma init_well_shaped: "well_shaped (FDExplicitEu_init s0 k rate t sg smax m n p)"
  by (rule well_shapedI) simp_all

lemma setup_boundary_conditions_fields:
  assumes "setup_boundary_conditions s = Inr s'"
  shows "M s' = M s" "N s' = N s" "j_values s' = j_values s" "i_values s' = i_values s"
    "boundary_conds s' = boundary_conds s" "is_call s' = is_call s" "S0 s' = S0 s"
    "K s' = K s" "r s' = r s" "T s' = T s" "sigma s' = sigma s" "Smax s' = Smax s" "0 < N s"
  using assms
  by (auto simp add: setup_boundary_conditions_def dt_def Let_def split: if_splits)

lemma setup_boundary_conditions_well_shaped:
  assumes "setup_boundary_conditions s = Inr s'" and "well_shaped s"
  shows "well_shaped s'"
proof (rule well_shapedI)
  note f = setup_boundary_conditions_fields [OF assms(1)]
  note w = well_shapedD [OF assms(2)]
  show "length (grid s') = M s' + 1"
    using assms(1) w(1) f(1)
    by (auto simp add: setup_boundary_conditions_def dt_def Let_def split: if_splits)
  show "j_values s' = np_arange (N s')" using f w(3) by simp
  fix k assume "k \<le> M s'"
  then have "k < length (grid s)" using w(1) f(1) by simp
  then show "length (grid s' ! k) = N s' + 1"
    using assms(1) w(2) [of k] f(1,2) \<open>k \<le> M s'\<close>
    by (auto simp add: setup_boundary_conditions_def dt_def Let_def split: if_splits)
qed

lemma setup_coefficients_fields:
  assumes "setup_coefficients s = Inr s'"
  shows "M s' = M s" "N s' = N s" "j_values s' = j_values s" "i_values s' = i_values s"
    "boundary_conds s' = boundary_conds s" "is_call s' = is_call s" "S0 s' = S0 s"
    "grid s' = grid s" "0 < N s"
  using assms by (auto simp add: setup_coefficients_def dt_def split: if_splits)

lemma setup_coefficients_well_shaped:
  "setup_coefficients s = Inr s' \<Longrightarrow> well_shaped s \<Longrightarrow> well_shaped s'"
  by (auto simp add: setup_coefficients_def dt_def well_shaped_def split: if_splits)

subsection \<open>Evaluation on numerals\<close>

lemma upt_2 [simp]: "[0..<2] = [0, 1]" by (simp add: upt_rec)
lemma upt_3: "[0..<3] = [0, 1, 2]" by (simp add: upt_rec)
lemma replicate_3: "replicate 3 x = [x, x, x]" by (simp add: eval_nat_numeral)
lemma update_2: "(x0 # x1 # x2 # xs)[2 := v] = x0 # x1 # v # xs" by (simp add: eval_nat_numeral)
lemma update_3: "(x0 # x1 # x2 # x3 # xs)[3 := v] = x0 # x1 # x2 # v # xs" by (simp add: eval_nat_numeral)
lemma upt_4: "[0..<4] = [0, 1, 2, 3]" by (simp add: upt_rec)
lemma upt_5: "[0..<5] = [0, 1, 2, 3, 4]" by (simp add: upt_rec)

lemma explicit_demo_setup:
  "(case setup_boundary_conditions explicit_demo of
      Inl e \<Rightarrow> Inl e | Inr s \<Rightarrow> setup_coefficients s) = Inr explicit_demo_ready"
  by (simp add: explicit_demo_def explicit_demo_ready_def FDExplicitEu_init_def
      FiniteDifferences_init_def FiniteDifferences.defs FDExplicitEu.defs
      setup_boundary_conditions_def setup_coefficients_def dt_def discounted_def
      set_column_def set_row_init_def np_zeros2_def np_zeros_def np_linspace_def
      np_arange_def upt_4 upt_5 upt_3 replicate_3 update_2 power2_eq_square)

lemma explicit_demo_traverse:
  "grid (traverse_grid explicit_demo_ready) =
     [ [0, 0, 0], [0, 0, 0], [1, 1, 1], [2, 2, 2], [3, 3, 3]]"
  by (simp add: explicit_demo_ready_def traverse_grid_def explicit_cell_def grid_set_def
      upt_rec [of 2 4] upt_rec [of 3 4] update_2 update_3)

subsection \<open>The explicit recursion\<close>

text \<open>
  C1. After the explicit \<^verbatim>\<open>traverse_grid\<close>, every time column \<open>j < N\<close> and every
  price row \<open>i\<close> in \<open>2..M-1\<close> satisfy
  \<open>grid[i,j] = a[i]*grid[i-1,j+1] + b[i]*grid[i,j+1] + c[i]*grid[i+1,j+1]\<close>:
  each cell is the three-point combination of column \<open>j+1\<close>, with no linear solve.
\<close>

theorem explicit_traverse_grid_recursion:
  assumes "well_shaped s" and "j < N s" and "2 \<le> i" and "i < M s"
  shows "grid (traverse_grid s) ! i ! j =
           a s ! i * grid (traverse_grid s) ! (i - 1) ! (j + 1)
         + b s ! i * grid (traverse_grid s) ! i ! (j + 1)
         + c s ! i * grid (traverse_grid s) ! (i + 1) ! (j + 1)"
proof -
  note w = well_shapedD [OF assms(1)]
  have "explicit_cols s (rev [0..<N s]) (grid s) ! i ! j
      = explicit_cell s (explicit_cols s (rev [0..<N s]) (grid s)) i j"
    using assms w(1) w(2) by (intro explicit_cols_recursion) simp_all
  then show ?thesis
    by (simp add: traverse_grid_def w(3) np_arange_def explicit_cell_def)
qed

theorem explicit_traverse_grid_recursion_witness:
  "well_shaped explicit_demo_ready \<and> (0::nat) < N explicit_demo_ready \<and>
   (2::nat) < M explicit_demo_ready \<and>
   grid (traverse_grid explicit_demo_ready) ! 2 ! 0 = 1 \<and>
   a explicit_demo_ready ! 2 * grid (traverse_grid explicit_demo_ready) ! 1 ! 1
     + b explicit_demo_ready ! 2 * grid (traverse_grid explicit_demo_ready) ! 2 ! 1
     + c explicit_demo_ready ! 2 * grid (traverse_grid explicit_demo_ready) ! 3 ! 1 = 1"
proof -
  have w: "well_shaped explicit_demo_ready"
    by (simp add: well_shaped_def explicit_demo_ready_def np_arange_def)
  have n: "0 < N explicit_demo_ready" and m: "2 < M explicit_demo_ready"
    by (simp_all add: explicit_demo_ready_def)
  have v: "grid (traverse_grid explicit_demo_ready) ! 2 ! 0 = 1"
    by (simp add: explicit_demo_traverse)
  from explicit_traverse_grid_recursion [OF w n order_refl m] v w n m
  show ?thesis by simp
qed

subsection \<open>Interpolation\<close>

lemma interp_scan_knot:
  "sorted_wrt (<) xp \<Longrightarrow> length fp = length xp \<Longrightarrow> i < length xp \<Longrightarrow>
   interp_scan (xp ! i) xp fp = fp ! i"
proof (induction "xp ! i" xp fp arbitrary: i rule: interp_scan.induct)
  case (1 x0 x1 xs y0 y1 ys)
  show ?case
  proof (cases i)
    case 0
    with "1.prems" show ?thesis by simp
  next
    case (Suc k)
    with "1.prems" have ge: "\<not> (x0 # x1 # xs) ! i < x1"
      by (cases k) (auto simp add: not_less less_imp_le)
    from Suc "1.prems" have "interp_scan ((x1 # xs) ! k) (x1 # xs) (y1 # ys) = (y1 # ys) ! k"
      using ge by (intro "1.hyps") simp_all
    with Suc ge show ?thesis by simp
  qed
qed simp_all

lemma sorted_wrt_less_hd_le: "sorted_wrt (<) xp \<Longrightarrow> i < length xp \<Longrightarrow> hd xp \<le> (xp ! i :: real)"
  by (cases xp; cases i) (auto simp add: less_imp_le)

lemma sorted_wrt_less_le_last:
  "sorted_wrt (<) xp \<Longrightarrow> i < length xp \<Longrightarrow> (xp ! i :: real) \<le> last xp"
proof -
  assume a: "sorted_wrt (<) xp" "i < length xp"
  then have "xp \<noteq> []" by auto
  then have l: "last xp = xp ! (length xp - 1)" by (rule last_conv_nth)
  show ?thesis
  proof (cases "i = length xp - 1")
    case True with l show ?thesis by simp
  next
    case False
    with a have "xp ! i < xp ! (length xp - 1)"
      using sorted_wrt_nth_less [OF a(1), of i "length xp - 1"] by simp
    with l show ?thesis by simp
  qed
qed

lemma np_interp_knot:
  assumes "sorted_wrt (<) xp" and "length fp = length xp" and "i < length xp"
  shows "np_interp (xp ! i) xp fp = Inr (fp ! i)"
proof -
  have "xp \<noteq> []" using assms(3) by auto
  moreover have "\<not> last xp < xp ! i"
    using sorted_wrt_less_le_last [OF assms(1,3)] by simp
  moreover have "\<not> xp ! i < hd xp"
    using sorted_wrt_less_hd_le [OF assms(1,3)] by simp
  ultimately show ?thesis
    using assms by (simp add: np_interp_def interp_scan_knot)
qed

lemma np_linspace_length [simp]: "length (np_linspace lo hi num) = num"
  by (simp add: np_linspace_def)

lemma np_linspace_nth:
  "i < num \<Longrightarrow> np_linspace lo hi num ! i = lo + real i * ((hi - lo) / real (num - 1))"
  by (simp add: np_linspace_def)

lemma np_linspace_sorted: "lo < hi \<Longrightarrow> sorted_wrt (<) (np_linspace lo hi num)"
proof (cases "num \<le> 1")
  case True
  then have "length (np_linspace lo hi num) \<le> 1" by simp
  then show ?thesis
    by (cases "np_linspace lo hi num" rule: list.exhaust; cases "tl (np_linspace lo hi num)") auto
next
  case False
  assume "lo < hi"
  define st where "st = (hi - lo) / real (num - 1)"
  from False \<open>lo < hi\<close> have step: "0 < st" by (simp add: st_def)
  show ?thesis
    unfolding sorted_wrt_iff_nth_less
  proof (intro allI impI)
    fix i j assume ij: "i < j" "j < length (np_linspace lo hi num)"
    then have "real i * st < real j * st"
      using step by (simp add: mult_strict_right_mono)
    moreover have "np_linspace lo hi num ! i = lo + real i * st"
      and "np_linspace lo hi num ! j = lo + real j * st"
      using ij unfolding st_def by (simp_all only: np_linspace_nth np_linspace_length)
    ultimately show "np_linspace lo hi num ! i < np_linspace lo hi num ! j"
      by simp
  qed
qed

lemma column_nth: "i < length g \<Longrightarrow> column g j ! i = g ! i ! j"
  by (simp add: column_def)

lemma column_length [simp]: "length (column g j) = length g"
  by (simp add: column_def)

lemma np_interp_first_segment:
  assumes "length fp = length xp" and "2 \<le> length xp" and "xp ! 0 \<le> x" and "x < xp ! 1"
    and "xp ! 1 \<le> last xp"
  shows "np_interp x xp fp =
           Inr (if x = xp ! 0 then fp ! 0
                else (fp ! 1 - fp ! 0) / (xp ! 1 - xp ! 0) * (x - xp ! 0) + fp ! 0)"
proof -
  from assms(2) obtain x0 x1 xs where xp: "xp = x0 # x1 # xs"
    by (cases xp; cases "tl xp") auto
  with assms(1) obtain y0 y1 ys where fp: "fp = y0 # y1 # ys"
    by (cases fp; cases "tl fp") auto
  from assms(1,3-5) show ?thesis
    unfolding xp fp by (auto simp add: np_interp_def)
qed

subsection \<open>Boundary values\<close>

lemma discounted_nth:
  "j_values s = np_arange (N s) \<Longrightarrow> l < N s \<Longrightarrow>
   discounted s d coef ! l = coef * exp (- r s * d * (real (N s) - real l))"
  by (simp add: discounted_def np_arange_def)

lemma setup_boundary_conditions_cell:
  assumes "setup_boundary_conditions s = Inr s'" and "well_shaped s"
    and "k \<le> M s" and "l \<le> N s" and "length (boundary_conds s) = M s + 1"
  shows "grid s' ! k ! l =
     (if l < N s \<and> k = (if is_call s then M s else 0) then
        (if is_call s then Smax s - K s else K s - Smax s) *
          exp (- r s * (T s / real (N s)) * (real (N s) - real l))
      else if l = N s then
        (if is_call s then max 0 (boundary_conds s ! k - K s)
         else max 0 (K s - boundary_conds s ! k))
      else grid s ! k ! l)"
proof -
  note w = well_shapedD [OF assms(2)]
  have n: "0 < N s" by (rule setup_boundary_conditions_fields(13) [OF assms(1)])
  have kl: "k < length (grid s)" "l < length (grid s ! k)"
    using assms(3,4) w(1) w(2) [of k] by simp_all
  have rows: "length (grid s ! M s) = N s + 1" "length (grid s ! 0) = N s + 1"
    using w(2) [of "M s"] w(2) [of 0] by simp_all
  show ?thesis
  proof (cases "is_call s")
    case True
    with assms(1) n have g: "grid s' = set_row_init
        (set_column (grid s) (N s) (map (\<lambda>x. max 0 (x - K s)) (boundary_conds s))) (M s)
        (discounted s (T s / real (N s)) (Smax s - K s))"
      by (auto simp add: setup_boundary_conditions_def dt_def Let_def)
    show ?thesis
      using True kl rows assms(3-5) w(1)
      by (auto simp add: g set_row_init_nth set_column_nth discounted_nth [OF w(3)])
  next
    case False
    with assms(1) n have g: "grid s' = set_row_init
        (set_column (grid s) (N s) (map (\<lambda>x. max 0 (K s - x)) (boundary_conds s))) 0
        (discounted s (T s / real (N s)) (K s - Smax s))"
      by (auto simp add: setup_boundary_conditions_def dt_def Let_def)
    show ?thesis
      using False kl rows assms(3-5) w(1)
      by (auto simp add: g set_row_init_nth set_column_nth discounted_nth [OF w(3)])
  qed
qed

lemma setup_boundary_conditions_succeeds:
  "0 < N s \<Longrightarrow> \<exists>s'. setup_boundary_conditions s = Inr s'"
  by (simp add: setup_boundary_conditions_def dt_def Let_def)


lemma traverse_grid_fields [simp]:
  "boundary_conds (traverse_grid s) = boundary_conds s" "S0 (traverse_grid s) = S0 s"
  "M (traverse_grid s) = M s" "N (traverse_grid s) = N s"
  "length (grid (traverse_grid s)) = length (grid s)"
  by (simp_all add: traverse_grid_def)

lemma traverse_grid_other:
  "k < 2 \<or> M s \<le> k \<or> N s \<le> l \<Longrightarrow> j_values s = np_arange (N s) \<Longrightarrow>
   grid (traverse_grid s) ! k ! l = grid s ! k ! l"
  by (simp add: traverse_grid_def np_arange_def) (rule explicit_cols_other, auto)

subsection \<open>Row 1 of the explicit grid\<close>

text \<open>
  C10. With \<open>M \<ge> 2\<close>, the explicit traversal writes rows \<open>2..M-1\<close> only, so row \<open>1\<close>
  still holds the zero of \<^verbatim>\<open>np.zeros\<close> in every column \<open>j < N\<close> after
  \<^verbatim>\<open>traverse_grid\<close>; and for a spot between the first two price nodes,
  \<open>0 \<le> S0 \<le> Smax/M\<close>, the price is the line through \<open>grid[0,0]\<close> and that zero.
\<close>

theorem explicit_row_one_never_written:
  assumes bc: "setup_boundary_conditions (FDExplicitEu_init s0 k rate t sg smax m n p) = Inr s1"
    and co: "setup_coefficients s1 = Inr s2" and m: "2 \<le> m"
  shows "(\<forall>j<n. grid (traverse_grid s2) ! 1 ! j = 0) \<and>
         (0 < smax \<and> 0 \<le> s0 \<and> s0 \<le> smax / real m \<longrightarrow>
          price (FDExplicitEu_init s0 k rate t sg smax m n p) =
            Inr (grid (traverse_grid s2) ! 0 ! 0
                 + (0 - grid (traverse_grid s2) ! 0 ! 0) / (smax / real m) * s0))"
proof -
  let ?s = "FDExplicitEu_init s0 k rate t sg smax m n p"
  let ?g = "grid (traverse_grid s2)"
  note f1 = setup_boundary_conditions_fields [OF bc]
  note f2 = setup_coefficients_fields [OF co]
  have w0: "well_shaped ?s" by (rule init_well_shaped)
  have w1: "well_shaped s1" by (rule setup_boundary_conditions_well_shaped [OF bc w0])
  have w2: "well_shaped s2" by (rule setup_coefficients_well_shaped [OF co w1])
  have n: "0 < n" using f1(13) by simp
  have dims: "M s2 = m" "N s2 = n" using f1 f2 by simp_all
  have row1: "grid (traverse_grid s2) ! 1 ! j = 0" if "j < n" for j
  proof -
    have "grid s1 ! 1 ! j = grid ?s ! 1 ! j"
      using setup_boundary_conditions_cell [OF bc w0, of 1 j] m that by simp
    also have "\<dots> = 0" using m that by (simp add: np_zeros2_nth)
    finally have "grid s2 ! 1 ! j = 0" by (simp add: f2)
    moreover have "?g ! 1 ! j = grid s2 ! 1 ! j"
      by (rule traverse_grid_other) (simp_all add: well_shapedD(3) [OF w2])
    ultimately show ?thesis by simp
  qed
  have pr: "price ?s = np_interp s0 (np_linspace 0 smax (m + 1)) (column ?g 0)"
    using bc co f1 f2 by (simp add: price_def interpolate_def)
  have len: "length ?g = m + 1"
    using well_shapedD(1) [OF w2] dims by simp
  have interp: "np_interp s0 (np_linspace 0 smax (m + 1)) (column ?g 0) =
      Inr (?g ! 0 ! 0 + (0 - ?g ! 0 ! 0) / (smax / real m) * s0)"
    if pos: "0 < smax" and lo: "0 \<le> s0" and hi: "s0 \<le> smax / real m"
  proof -
    let ?xp = "np_linspace 0 smax (m + 1)"
    have x0: "?xp ! 0 = 0" and x1: "?xp ! 1 = smax / real m"
      using m by (simp_all add: np_linspace_nth)
    have srt: "sorted_wrt (<) ?xp" by (rule np_linspace_sorted [OF pos])
    have y0: "column ?g 0 ! 0 = ?g ! 0 ! 0" and y1: "column ?g 0 ! 1 = 0"
      using len m row1 [OF n] by (simp_all add: column_nth)
    have x1pos: "0 < smax / real m" using pos m by simp
    show ?thesis
    proof (cases "s0 = smax / real m")
      case True
      have "np_interp (?xp ! 1) ?xp (column ?g 0) = Inr (column ?g 0 ! 1)"
        using m len by (intro np_interp_knot [OF srt]) simp_all
      with True x1 y1 x1pos pos m show ?thesis by simp
    next
      case False
      with hi have lt: "s0 < ?xp ! 1" using x1 by simp
      have "?xp ! 1 \<le> last ?xp"
        using m by (intro sorted_wrt_less_le_last [OF srt]) simp
      then have "np_interp s0 ?xp (column ?g 0) =
           Inr (if s0 = ?xp ! 0 then column ?g 0 ! 0
                else (column ?g 0 ! 1 - column ?g 0 ! 0) / (?xp ! 1 - ?xp ! 0) * (s0 - ?xp ! 0)
                     + column ?g 0 ! 0)"
        using m len lo lt x0 by (intro np_interp_first_segment) simp_all
      from this [unfolded x0 x1 y0 y1] show ?thesis by simp
    qed
  qed
  show ?thesis using row1 pr interp by simp
qed

subsection \<open>The put boundary\<close>

lemma put_demo_boundary: "setup_boundary_conditions put_demo = Inr put_demo_bounded"
  by (simp add: put_demo_def put_demo_bounded_def FDExplicitEu_init_def
      FiniteDifferences_init_def FiniteDifferences.defs FDExplicitEu.defs
      setup_boundary_conditions_def dt_def discounted_def
      set_column_def set_row_init_def np_zeros2_def np_zeros_def np_linspace_def
      np_arange_def upt_4 upt_5 upt_3 replicate_3 update_2)

lemma put_demo_coefficients: "setup_coefficients put_demo_bounded = Inr put_demo_ready"
  by (simp add: put_demo_bounded_def put_demo_ready_def setup_coefficients_def dt_def
      power2_eq_square)

lemma put_demo_corner: "grid (traverse_grid put_demo_ready) ! 0 ! 0 = - 3"
proof -
  have "grid (traverse_grid put_demo_ready) ! 0 ! 0 = grid put_demo_ready ! 0 ! 0"
    by (rule traverse_grid_other)
      (simp_all add: put_demo_ready_def put_demo_bounded_def np_arange_def)
  then show ?thesis by (simp add: put_demo_ready_def put_demo_bounded_def)
qed

theorem explicit_row_one_never_written_witness:
  "setup_boundary_conditions (FDExplicitEu_init (1/2) 1 0 1 1 4 4 2 True) = Inr put_demo_bounded \<and>
   setup_coefficients put_demo_bounded = Inr put_demo_ready \<and>
   grid (traverse_grid put_demo_ready) ! 1 ! 0 = 0 \<and>
   grid (traverse_grid put_demo_ready) ! 1 ! 1 = 0 \<and>
   price (FDExplicitEu_init (1/2) 1 0 1 1 4 4 2 True) = Inr (- 3 / 2)"
proof -
  have b: "setup_boundary_conditions (FDExplicitEu_init (1/2) 1 0 1 1 4 4 2 True)
             = Inr put_demo_bounded"
    using put_demo_boundary by (simp add: put_demo_def)
  have m: "(2::nat) \<le> 4" by simp
  from explicit_row_one_never_written [OF b put_demo_coefficients m] b put_demo_coefficients
  show ?thesis by (simp add: put_demo_corner)
qed

text \<open>
  C3. A European put with \<open>S0 = K = 50\<close>, \<open>r = 0.1\<close>, \<open>T = 5/12\<close>, \<open>Smax = 100\<close>,
  \<open>M = 100\<close>, \<open>N = 1000\<close>: after \<^verbatim>\<open>setup_boundary_conditions\<close> the upper boundary
  \<open>grid[M,0]\<close> is \<open>0\<close>, and the lower boundary \<open>grid[0,0]\<close> is
  \<open>(K - Smax) * exp(-r*dt*N) = -50 * exp(-1/24)\<close>, a negative number, where the
  discounted strike is \<open>50 * exp(-1/24)\<close>.
\<close>

theorem put_lower_boundary_value:
  "\<exists>s1. setup_boundary_conditions
           (FDExplicitEu_init 50 50 (1/10) (5/12) (2/5) 100 100 1000 True) = Inr s1 \<and>
        grid s1 ! 100 ! 0 = 0 \<and>
        grid s1 ! 0 ! 0 = - 50 * exp (- (1/24)) \<and>
        grid s1 ! 0 ! 0 < 0 \<and> 0 < 50 * exp (- (1/24) :: real)"
proof -
  let ?s = "FDExplicitEu_init 50 50 (1/10) (5/12) (2/5) 100 100 1000 True"
  obtain s1 where s1: "setup_boundary_conditions ?s = Inr s1"
    using setup_boundary_conditions_succeeds [of ?s] by auto
  have top: "grid s1 ! 100 ! 0 = 0"
    using setup_boundary_conditions_cell [OF s1 init_well_shaped, of 100 0]
    by (simp add: np_zeros2_nth)
  have low: "grid s1 ! 0 ! 0 = - 50 * exp (- (1/24))"
    using setup_boundary_conditions_cell [OF s1 init_well_shaped, of 0 0] by simp
  show ?thesis using s1 top low by simp
qed

subsection \<open>Coefficient arrays and parameter checks\<close>







subsection \<open>Slices, diagonals and matrix sums\<close>

lemma slice_length [simp]: "length (slice lo hi xs) = min hi (length xs) - lo"
  by (simp add: slice_def min.commute)

lemma slice_nth: "lo + k < hi \<Longrightarrow> lo + k < length xs \<Longrightarrow> slice lo hi xs ! k = xs ! (lo + k)"
  by (simp add: slice_def)

lemma np_diag_length [simp]: "length (np_diag v k) = length v + nat \<bar>k\<bar>"
  by (simp add: np_diag_def Let_def)

lemma np_diag_row_length [simp]:
  "i < length v + nat \<bar>k\<bar> \<Longrightarrow> length (np_diag v k ! i) = length v + nat \<bar>k\<bar>"
  by (simp add: np_diag_def Let_def)

lemma np_diag_nth:
  "i < length v + nat \<bar>k\<bar> \<Longrightarrow> j < length v + nat \<bar>k\<bar> \<Longrightarrow>
   np_diag v k ! i ! j = (if int j - int i = k then v ! min i j else 0)"
  by (simp add: np_diag_def Let_def)

lemma mat_add_length [simp]: "length (mat_add A B) = min (length A) (length B)"
  by (simp add: mat_add_def)

lemma mat_add_row_length [simp]:
  "i < length A \<Longrightarrow> i < length B \<Longrightarrow>
   length (mat_add A B ! i) = min (length (A ! i)) (length (B ! i))"
  by (simp add: mat_add_def)

lemma mat_add_nth:
  "i < length A \<Longrightarrow> i < length B \<Longrightarrow> j < length (A ! i) \<Longrightarrow> j < length (B ! i) \<Longrightarrow>
   mat_add A B ! i ! j = A ! i ! j + B ! i ! j"
  by (simp add: mat_add_def)

lemma mat_sub_length [simp]: "length (mat_sub A B) = min (length A) (length B)"
  by (simp add: mat_sub_def)

lemma mat_sub_row_length [simp]:
  "i < length A \<Longrightarrow> i < length B \<Longrightarrow>
   length (mat_sub A B ! i) = min (length (A ! i)) (length (B ! i))"
  by (simp add: mat_sub_def)

lemma mat_sub_nth:
  "i < length A \<Longrightarrow> i < length B \<Longrightarrow> j < length (A ! i) \<Longrightarrow> j < length (B ! i) \<Longrightarrow>
   mat_sub A B ! i ! j = A ! i ! j - B ! i ! j"
  by (simp add: mat_sub_def)

lemma mat_neg_length [simp]: "length (mat_neg A) = length A"
  by (simp add: mat_neg_def)

lemma mat_neg_row_length [simp]: "i < length A \<Longrightarrow> length (mat_neg A ! i) = length (A ! i)"
  by (simp add: mat_neg_def)

lemma mat_neg_nth:
  "i < length A \<Longrightarrow> j < length (A ! i) \<Longrightarrow> mat_neg A ! i ! j = - (A ! i ! j)"
  by (simp add: mat_neg_def)

lemma setup_coefficients_cn_fields:
  assumes "setup_coefficients_cn s = Inr s'"
  shows "M s' = M s" "N s' = N s" "j_values s' = j_values s" "i_values s' = i_values s"
    "boundary_conds s' = boundary_conds s" "is_call s' = is_call s" "S0 s' = S0 s"
    "grid s' = grid s" "0 < N s"
    "length (alpha s') = length (i_values s)" "length (beta s') = length (i_values s)"
    "length (gamma s') = length (i_values s)"
  using assms by (auto simp add: setup_coefficients_cn_def dt_def Let_def split: if_splits)

lemma setup_coefficients_cn_M1:
  assumes "setup_coefficients_cn s = Inr s'"
  shows "M1 s' = mat_sub
           (mat_add (mat_neg (np_diag (slice 2 (M s) (alpha s')) (- 1)))
                    (np_diag (map (\<lambda>x. 1 - x) (slice 1 (M s) (beta s'))) 0))
           (np_diag (slice 1 (M s - 1) (gamma s')) 1)"
  using assms by (auto simp add: setup_coefficients_cn_def dt_def Let_def split: if_splits)

lemma setup_coefficients_cn_M2:
  assumes "setup_coefficients_cn s = Inr s'"
  shows "M2 s' = mat_add
           (mat_add (np_diag (slice 2 (M s) (alpha s')) (- 1))
                    (np_diag (map (\<lambda>x. 1 + x) (slice 1 (M s) (beta s'))) 0))
           (np_diag (slice 1 (M s - 1) (gamma s')) 1)"
  using assms by (auto simp add: setup_coefficients_cn_def dt_def Let_def split: if_splits)

lemma cn_M1_entry:
  assumes s': "setup_coefficients_cn s = Inr s'" and m: "2 \<le> M s"
    and len: "M s \<le> length (i_values s)" and i: "i < M s - 1" and j: "j < M s - 1"
  shows "length (M1 s') = M s - 1" and "length (M1 s' ! i) = M s - 1"
    and "M1 s' ! i ! j =
      (if j + 1 = i then - alpha s' ! (i + 1)
       else if j = i then 1 - beta s' ! (i + 1)
       else if j = i + 1 then - gamma s' ! (i + 1) else 0)"
proof -
  note f = setup_coefficients_cn_fields [OF s']
  define A where "A = np_diag (slice 2 (M s) (alpha s')) (- 1)"
  define B where "B = np_diag (map (\<lambda>x. 1 - x) (slice 1 (M s) (beta s'))) 0"
  define C where "C = np_diag (slice 1 (M s - 1) (gamma s')) 1"
  have la: "length (slice 2 (M s) (alpha s')) + nat \<bar>- 1::int\<bar> = M s - 1"
    and lb: "length (map (\<lambda>x. 1 - x) (slice 1 (M s) (beta s'))) + nat \<bar>0::int\<bar> = M s - 1"
    and lc: "length (slice 1 (M s - 1) (gamma s')) + nat \<bar>1::int\<bar> = M s - 1"
    using m len f(10-12) by simp_all
  have A: "length A = M s - 1" "length (A ! i) = M s - 1"
      "A ! i ! j = (if int j - int i = - 1 then slice 2 (M s) (alpha s') ! min i j else 0)"
    using i j la unfolding A_def
    by (simp_all only: np_diag_length np_diag_row_length np_diag_nth)
  have B: "length B = M s - 1" "length (B ! i) = M s - 1"
      "B ! i ! j = (if int j - int i = 0
                     then map (\<lambda>x. 1 - x) (slice 1 (M s) (beta s')) ! min i j else 0)"
    using i j lb unfolding B_def
    by (simp_all only: np_diag_length np_diag_row_length np_diag_nth)
  have C: "length C = M s - 1" "length (C ! i) = M s - 1"
      "C ! i ! j = (if int j - int i = 1 then slice 1 (M s - 1) (gamma s') ! min i j else 0)"
    using i j lc unfolding C_def
    by (simp_all only: np_diag_length np_diag_row_length np_diag_nth)
  have M1: "M1 s' = mat_sub (mat_add (mat_neg A) B) C"
    unfolding A_def B_def C_def by (rule setup_coefficients_cn_M1 [OF s'])
  show "length (M1 s') = M s - 1" by (simp add: M1 A B C)
  show "length (M1 s' ! i) = M s - 1"
    using i by (simp add: M1 A B C)
  have "M1 s' ! i ! j = - (A ! i ! j) + B ! i ! j - C ! i ! j"
    using i j by (simp add: M1 mat_sub_nth mat_add_nth mat_neg_nth A(1,2) B(1,2) C(1,2))
  also have "\<dots> = (if j + 1 = i then - alpha s' ! (i + 1)
       else if j = i then 1 - beta s' ! (i + 1)
       else if j = i + 1 then - gamma s' ! (i + 1) else 0)"
    using i j m len f(10-12) by (auto simp add: A(3) B(3) C(3) slice_nth min_def)
  finally show "M1 s' ! i ! j =
      (if j + 1 = i then - alpha s' ! (i + 1)
       else if j = i then 1 - beta s' ! (i + 1)
       else if j = i + 1 then - gamma s' ! (i + 1) else 0)" .
qed

subsection \<open>The Crank-Nicolson operators\<close>

lemma cn_M2_entry:
  assumes s': "setup_coefficients_cn s = Inr s'" and m: "2 \<le> M s"
    and len: "M s \<le> length (i_values s)" and i: "i < M s - 1" and j: "j < M s - 1"
  shows "length (M2 s') = M s - 1" and "length (M2 s' ! i) = M s - 1"
    and "M2 s' ! i ! j =
      (if j + 1 = i then alpha s' ! (i + 1)
       else if j = i then 1 + beta s' ! (i + 1)
       else if j = i + 1 then gamma s' ! (i + 1) else 0)"
proof -
  note f = setup_coefficients_cn_fields [OF s']
  define A where "A = np_diag (slice 2 (M s) (alpha s')) (- 1)"
  define B where "B = np_diag (map (\<lambda>x. 1 + x) (slice 1 (M s) (beta s'))) 0"
  define C where "C = np_diag (slice 1 (M s - 1) (gamma s')) 1"
  have la: "length (slice 2 (M s) (alpha s')) + nat \<bar>- 1::int\<bar> = M s - 1"
    and lb: "length (map (\<lambda>x. 1 + x) (slice 1 (M s) (beta s'))) + nat \<bar>0::int\<bar> = M s - 1"
    and lc: "length (slice 1 (M s - 1) (gamma s')) + nat \<bar>1::int\<bar> = M s - 1"
    using m len f(10-12) by simp_all
  have A: "length A = M s - 1" "length (A ! i) = M s - 1"
      "A ! i ! j = (if int j - int i = - 1 then slice 2 (M s) (alpha s') ! min i j else 0)"
    using i j la unfolding A_def
    by (simp_all only: np_diag_length np_diag_row_length np_diag_nth)
  have B: "length B = M s - 1" "length (B ! i) = M s - 1"
      "B ! i ! j = (if int j - int i = 0
                     then map (\<lambda>x. 1 + x) (slice 1 (M s) (beta s')) ! min i j else 0)"
    using i j lb unfolding B_def
    by (simp_all only: np_diag_length np_diag_row_length np_diag_nth)
  have C: "length C = M s - 1" "length (C ! i) = M s - 1"
      "C ! i ! j = (if int j - int i = 1 then slice 1 (M s - 1) (gamma s') ! min i j else 0)"
    using i j lc unfolding C_def
    by (simp_all only: np_diag_length np_diag_row_length np_diag_nth)
  have M2: "M2 s' = mat_add (mat_add A B) C"
    unfolding A_def B_def C_def by (rule setup_coefficients_cn_M2 [OF s'])
  show "length (M2 s') = M s - 1" by (simp add: M2 A B C)
  show "length (M2 s' ! i) = M s - 1"
    using i by (simp add: M2 A B C)
  have "M2 s' ! i ! j = A ! i ! j + B ! i ! j + C ! i ! j"
    using i j by (simp add: M2 mat_add_nth A(1,2) B(1,2) C(1,2))
  also have "\<dots> = (if j + 1 = i then alpha s' ! (i + 1)
       else if j = i then 1 + beta s' ! (i + 1)
       else if j = i + 1 then gamma s' ! (i + 1) else 0)"
    using i j m len f(10-12) by (auto simp add: A(3) B(3) C(3) slice_nth min_def)
  finally show "M2 s' ! i ! j =
      (if j + 1 = i then alpha s' ! (i + 1)
       else if j = i then 1 + beta s' ! (i + 1)
       else if j = i + 1 then gamma s' ! (i + 1) else 0)" .
qed

text \<open>
  C4. For \<open>M \<ge> 2\<close>, \<open>M1\<close> and \<open>M2\<close> are \<open>M-1\<close> by \<open>M-1\<close>; the row of the interior index
  \<open>i\<close> (row \<open>i-1\<close>) holds \<open>(-alpha[i], 1-beta[i], -gamma[i])\<close> in \<open>M1\<close> and
  \<open>(alpha[i], 1+beta[i], gamma[i])\<close> in \<open>M2\<close> on the sub-diagonal, diagonal and
  super-diagonal, every other entry is \<open>0\<close>, and \<open>M1 + M2 = 2 I\<close> entry by entry.
\<close>

theorem cn_operators_opposite_signs:
  assumes s': "setup_coefficients_cn s = Inr s'" and m: "2 \<le> M s"
    and len: "M s \<le> length (i_values s)"
  shows "length (M1 s') = M s - 1 \<and> length (M2 s') = M s - 1 \<and>
    (\<forall>i. 1 \<le> i \<and> i < M s \<longrightarrow>
       length (M1 s' ! (i - 1)) = M s - 1 \<and> length (M2 s' ! (i - 1)) = M s - 1 \<and>
       M1 s' ! (i - 1) ! (i - 1) = 1 - beta s' ! i \<and>
       M2 s' ! (i - 1) ! (i - 1) = 1 + beta s' ! i \<and>
       (2 \<le> i \<longrightarrow> M1 s' ! (i - 1) ! (i - 2) = - alpha s' ! i \<and>
                  M2 s' ! (i - 1) ! (i - 2) = alpha s' ! i) \<and>
       (i + 1 < M s \<longrightarrow> M1 s' ! (i - 1) ! i = - gamma s' ! i \<and>
                      M2 s' ! (i - 1) ! i = gamma s' ! i) \<and>
       (\<forall>j<M s - 1. j + 2 < i \<or> i < j \<longrightarrow>
           M1 s' ! (i - 1) ! j = 0 \<and> M2 s' ! (i - 1) ! j = 0)) \<and>
    (\<forall>i<M s - 1. \<forall>j<M s - 1.
       M1 s' ! i ! j + M2 s' ! i ! j = (if i = j then 2 else 0))"
proof -
  have 0: "M s - 2 < M s - 1" "0 < M s - 1" using m by simp_all
  have len1: "length (M1 s') = M s - 1" and len2: "length (M2 s') = M s - 1"
    using cn_M1_entry(1) [OF s' m len 0(2) 0(2)] cn_M2_entry(1) [OF s' m len 0(2) 0(2)]
    by simp_all
  have rows: "length (M1 s' ! (i - 1)) = M s - 1 \<and> length (M2 s' ! (i - 1)) = M s - 1 \<and>
       M1 s' ! (i - 1) ! (i - 1) = 1 - beta s' ! i \<and>
       M2 s' ! (i - 1) ! (i - 1) = 1 + beta s' ! i \<and>
       (2 \<le> i \<longrightarrow> M1 s' ! (i - 1) ! (i - 2) = - alpha s' ! i \<and>
                  M2 s' ! (i - 1) ! (i - 2) = alpha s' ! i) \<and>
       (i + 1 < M s \<longrightarrow> M1 s' ! (i - 1) ! i = - gamma s' ! i \<and>
                      M2 s' ! (i - 1) ! i = gamma s' ! i) \<and>
       (\<forall>j<M s - 1. j + 2 < i \<or> i < j \<longrightarrow>
           M1 s' ! (i - 1) ! j = 0 \<and> M2 s' ! (i - 1) ! j = 0)"
    if i: "1 \<le> i" "i < M s" for i
  proof -
    from i have k: "i - 1 < M s - 1" by simp
    have e1: "\<And>j. j < M s - 1 \<Longrightarrow> M1 s' ! (i - 1) ! j =
      (if j + 1 = i - 1 then - alpha s' ! i
       else if j = i - 1 then 1 - beta s' ! i
       else if j = i then - gamma s' ! i else 0)"
      using cn_M1_entry(3) [OF s' m len k] i by simp
    have e2: "\<And>j. j < M s - 1 \<Longrightarrow> M2 s' ! (i - 1) ! j =
      (if j + 1 = i - 1 then alpha s' ! i
       else if j = i - 1 then 1 + beta s' ! i
       else if j = i then gamma s' ! i else 0)"
      using cn_M2_entry(3) [OF s' m len k] i by simp
    have d: "M1 s' ! (i - 1) ! (i - 1) = 1 - beta s' ! i"
        "M2 s' ! (i - 1) ! (i - 1) = 1 + beta s' ! i"
      using e1 [OF k] e2 [OF k] by simp_all
    have l: "M1 s' ! (i - 1) ! (i - 2) = - alpha s' ! i"
        "M2 s' ! (i - 1) ! (i - 2) = alpha s' ! i" if "2 \<le> i"
    proof -
      from that i have "i - 2 < M s - 1" "i - 2 + 1 = i - 1" by simp_all
      then show "M1 s' ! (i - 1) ! (i - 2) = - alpha s' ! i"
        "M2 s' ! (i - 1) ! (i - 2) = alpha s' ! i"
        using e1 [of "i - 2"] e2 [of "i - 2"] by simp_all
    qed
    have u: "M1 s' ! (i - 1) ! i = - gamma s' ! i" "M2 s' ! (i - 1) ! i = gamma s' ! i"
      if "i + 1 < M s"
    proof -
      from that i have "i < M s - 1" "i + 1 \<noteq> i - 1" "i \<noteq> i - 1" by simp_all
      then show "M1 s' ! (i - 1) ! i = - gamma s' ! i" "M2 s' ! (i - 1) ! i = gamma s' ! i"
        using e1 [of i] e2 [of i] by simp_all
    qed
    have z: "M1 s' ! (i - 1) ! j = 0 \<and> M2 s' ! (i - 1) ! j = 0"
      if "j < M s - 1" "j + 2 < i \<or> i < j" for j
    proof -
      from that i have "j + 1 \<noteq> i - 1" "j \<noteq> i - 1" "j \<noteq> i" by auto
      then show ?thesis using e1 [OF that(1)] e2 [OF that(1)] by simp
    qed
    show ?thesis
      using cn_M1_entry(2) [OF s' m len k k] cn_M2_entry(2) [OF s' m len k k] d l u z
      by blast
  qed
  have sum: "M1 s' ! i ! j + M2 s' ! i ! j = (if i = j then 2 else 0)"
    if "i < M s - 1" "j < M s - 1" for i j
    using cn_M1_entry(3) [OF s' m len that] cn_M2_entry(3) [OF s' m len that] by auto
  show ?thesis using len1 len2 rows sum by blast
qed

lemma upt_0_3: "[0..<3] = [0, 1, 2]" by (simp add: upt_rec)

lemma cn_demo_coefficients: "setup_coefficients_cn cn_demo = Inr cn_demo_ready"
  by (simp add: cn_demo_ready_def cn_demo_def FDCnEu_init_def FDExplicitEu_init_def
      FiniteDifferences_init_def FiniteDifferences.defs FDExplicitEu.defs FDCnEu.defs
      setup_coefficients_cn_def dt_def Let_def np_arange_def upt_0_3 upt_2 power2_eq_square
      slice_def np_diag_def mat_add_def mat_sub_def mat_neg_def eval_nat_numeral)

theorem cn_operators_opposite_signs_witness:
  "setup_coefficients_cn cn_demo = Inr cn_demo_ready \<and> (2::nat) \<le> M cn_demo \<and>
   M cn_demo \<le> length (i_values cn_demo) \<and>
   M1 cn_demo_ready = [ [3/2, - 1/4], [- 1, 3]] \<and>
   M2 cn_demo_ready = [ [1/2, 1/4], [1, - 1]] \<and>
   M1 cn_demo_ready ! 1 ! 0 = - alpha cn_demo_ready ! 2 \<and>
   M2 cn_demo_ready ! 1 ! 0 = alpha cn_demo_ready ! 2 \<and>
   M1 cn_demo_ready ! 0 ! 0 + M2 cn_demo_ready ! 0 ! 0 = 2"
proof -
  have m: "2 \<le> M cn_demo" and len: "M cn_demo \<le> length (i_values cn_demo)"
    by (simp_all add: cn_demo_def FDCnEu_init_def FDExplicitEu_init_def
        FiniteDifferences_init_def FiniteDifferences.defs FDExplicitEu.defs np_arange_def)
  have v: "M1 cn_demo_ready = [ [3/2, - 1/4], [- 1, 3]]"
    "M2 cn_demo_ready = [ [1/2, 1/4], [1, - 1]]"
    by (simp_all add: cn_demo_ready_def)
  have two: "1 \<le> (2::nat) \<and> 2 < M cn_demo" "(2::nat) - 1 = 1" "(2::nat) - 2 = 0"
    "(0::nat) < M cn_demo - 1"
    by (simp_all add: cn_demo_def FDCnEu_init_def FDExplicitEu_init_def
        FiniteDifferences_init_def FiniteDifferences.defs FDExplicitEu.defs)
  from cn_operators_opposite_signs [OF cn_demo_coefficients m len]
  have "(\<forall>i. 1 \<le> i \<and> i < M cn_demo \<longrightarrow>
       M1 cn_demo_ready ! (i - 1) ! (i - 2) = - alpha cn_demo_ready ! i \<or> \<not> 2 \<le> i)"
    and "(\<forall>i. 1 \<le> i \<and> i < M cn_demo \<longrightarrow>
       M2 cn_demo_ready ! (i - 1) ! (i - 2) = alpha cn_demo_ready ! i \<or> \<not> 2 \<le> i)"
    and "\<forall>i<M cn_demo - 1. \<forall>j<M cn_demo - 1.
       M1 cn_demo_ready ! i ! j + M2 cn_demo_ready ! i ! j = (if i = j then 2 else 0)"
    by blast+
  then have "M1 cn_demo_ready ! 1 ! 0 = - alpha cn_demo_ready ! 2"
    and "M2 cn_demo_ready ! 1 ! 0 = alpha cn_demo_ready ! 2"
    and "M1 cn_demo_ready ! 0 ! 0 + M2 cn_demo_ready ! 0 ! 0 = 2"
    using two by (metis order_refl)+
  with cn_demo_coefficients m len v show ?thesis by simp
qed

subsection \<open>The barrier row\<close>

lemma set_column_slice_length:
  "set_column_slice g lo hi j v = Inr g' \<Longrightarrow> length g' = length g"
  by (auto simp add: set_column_slice_def split: if_splits)

lemma set_column_slice_other:
  "set_column_slice g lo hi j v = Inr g' \<Longrightarrow> k < lo \<or> hi \<le> k \<Longrightarrow> k < length g \<Longrightarrow>
   g' ! k = g ! k"
  by (auto simp add: set_column_slice_def split: if_splits)

lemma cn_steps_other:
  "cn_steps solve s L U js g = Inr g' \<Longrightarrow> k < 1 \<or> M s \<le> k \<Longrightarrow> k < length g \<Longrightarrow>
   length g' = length g \<and> g' ! k = g ! k"
proof (induction js arbitrary: g)
  case Nil
  then show ?case by simp
next
  case (Cons j js)
  from Cons.prems(1) obtain x1 x2 g1 where
    g1: "set_column_slice g 1 (M s) j x2 = Inr g1" and rest: "cn_steps solve s L U js g1 = Inr g'"
    by (auto split: sum.splits)
  have l1: "length g1 = length g" by (rule set_column_slice_length [OF g1])
  have r1: "g1 ! k = g ! k" by (rule set_column_slice_other [OF g1 Cons.prems(2,3)])
  from Cons.IH [OF rest Cons.prems(2)] l1 r1 Cons.prems(3) show ?case by simp
qed

lemma traverse_grid_cn_other:
  assumes "traverse_grid_cn lu solve s = Inr s'" and "k < 1 \<or> M s \<le> k" and "k < length (grid s)"
  shows "grid s' ! k = grid s ! k"
proof -
  from assms(1) obtain P L U g where "cn_steps solve s L U (rev [0..<N s]) (grid s) = Inr g"
    and "s' = s\<lparr>grid := g\<rparr>"
    by (auto simp add: traverse_grid_cn_def split: sum.splits prod.splits)
  with cn_steps_other [OF _ assms(2,3)] show ?thesis by simp
qed

lemma FDCnDo_init_fields:
  assumes "FDCnDo_init s0 k rate t sg sbarrier smax m n p = Inr s"
  shows "M s = m" "N s = n" "K s = k" "is_call s = (\<not> p)" "j_values s = np_arange n"
    "grid s = np_zeros2 (m + 1) (n + 1)" "boundary_conds s = np_linspace sbarrier smax (m + 1)"
    "0 < m"
  using assms
  by (auto simp add: FDCnDo_init_def dS_do_def Let_def FDCnEu_init_def FDExplicitEu_init_def
      FiniteDifferences_init_def FiniteDifferences.defs FDExplicitEu.defs FDCnEu.defs
      FDCnDo.defs split: if_splits)

lemma FDCnDo_init_well_shaped:
  assumes "FDCnDo_init s0 k rate t sg sbarrier smax m n p = Inr s"
  shows "well_shaped s"
  using FDCnDo_init_fields [OF assms] by (intro well_shapedI) simp_all

text \<open>
  C8, as the code has it. \<^verbatim>\<open>FDCnDo\<close> changes the price axis only and inherits the
  boundary setup. For a down-and-out call the setup leaves row \<open>0\<close> at its initial zero in
  every column \<open>j < N\<close> and writes the terminal payoff \<open>max(0, Sbarrier - K)\<close> in column
  \<open>N\<close>, and the traversal writes rows \<open>1..M-1\<close> only, whatever the linear solver returns.
\<close>

theorem barrier_row_of_call:
  assumes init: "FDCnDo_init s0 k rate t sg sbarrier smax m n False = Inr s"
    and bc: "setup_boundary_conditions s = Inr s1"
    and co: "setup_coefficients_cn s1 = Inr s2"
    and tr: "traverse_grid_cn lu solve s2 = Inr s3"
  shows "(\<forall>j<n. grid s3 ! 0 ! j = 0) \<and> grid s3 ! 0 ! n = max 0 (sbarrier - k)"
proof -
  note f = FDCnDo_init_fields [OF init]
  note w = FDCnDo_init_well_shaped [OF init]
  note f1 = setup_boundary_conditions_fields [OF bc]
  note f2 = setup_coefficients_cn_fields [OF co]
  have w1: "well_shaped s1" by (rule setup_boundary_conditions_well_shaped [OF bc w])
  have "grid s3 ! 0 = grid s2 ! 0"
    using well_shapedD(1) [OF w1] f2 by (intro traverse_grid_cn_other [OF tr]) simp_all
  then have row: "grid s3 ! 0 = grid s1 ! 0" by (simp add: f2)
  have cell: "grid s1 ! 0 ! l =
      (if l = n then max 0 (sbarrier - k) else 0)" if "l \<le> n" for l
    using setup_boundary_conditions_cell [OF bc w, of 0 l] that f
    by (simp add: np_zeros2_nth np_linspace_nth)
  show ?thesis using row cell by simp
qed

subsection \<open>The barrier row on concrete contracts\<close>

lemma cn_steps_solve1:
  "\<exists>g'. cn_steps solve1 s L U js g = Inr g'"
proof (induction js arbitrary: g)
  case Nil
  then show ?case by simp
next
  case (Cons j js)
  obtain x1 where x1: "solve1 L (np_dot (M2 s) (slice 1 (M s) (column g (j + 1)))) = Inr x1"
    by (simp add: solve1_def)
  obtain x2 where x2: "solve1 U x1 = Inr x2" and l: "length x2 = 1"
    by (simp add: solve1_def)
  have "\<exists>g1. set_column_slice g 1 (M s) j x2 = Inr g1"
    using l by (simp add: set_column_slice_def)
  then obtain g1 where g1: "set_column_slice g 1 (M s) j x2 = Inr g1" by blast
  from Cons.IH [of g1] x1 x2 g1 show ?case by simp
qed

lemma traverse_grid_cn_solve1: "\<exists>s'. traverse_grid_cn lu1 solve1 s = Inr s'"
proof -
  obtain g where "cn_steps solve1 s (M1 s) (M1 s) (rev [0..<N s]) (grid s) = Inr g"
    using cn_steps_solve1 by blast
  moreover obtain g' where "cn_steps solve1 s [ [1]] (M1 s) (rev [0..<N s]) (grid s) = Inr g'"
    using cn_steps_solve1 by blast
  ultimately show ?thesis by (simp add: traverse_grid_cn_def lu1_def)
qed

lemma setup_coefficients_cn_succeeds:
  "0 < N s \<Longrightarrow> \<exists>s'. setup_coefficients_cn s = Inr s'"
  by (simp add: setup_coefficients_cn_def dt_def Let_def)

lemma FDCnDo_init_succeeds:
  "0 < m \<Longrightarrow> \<exists>s. FDCnDo_init s0 k rate t sg sbarrier smax m n p = Inr s"
  by (simp add: FDCnDo_init_def dS_do_def Let_def FDCnEu_init_def FDExplicitEu_init_def
      FiniteDifferences_init_def FiniteDifferences.defs FDExplicitEu.defs FDCnEu.defs
      FDCnDo.defs)

theorem barrier_row_of_call_witness:
  "\<exists>s s1 s2 s3. FDCnDo_init 50 50 0 1 1 40 100 2 1 False = Inr s \<and>
     setup_boundary_conditions s = Inr s1 \<and> setup_coefficients_cn s1 = Inr s2 \<and>
     traverse_grid_cn lu1 solve1 s2 = Inr s3 \<and>
     grid s3 ! 0 ! 0 = 0 \<and> grid s3 ! 0 ! 1 = 0"
proof -
  have "(0::nat) < 2" by simp
  from FDCnDo_init_succeeds [OF this]
  obtain s where s: "FDCnDo_init 50 50 0 1 1 40 100 2 1 False = Inr s" by blast
  note f = FDCnDo_init_fields [OF s]
  obtain s1 where s1: "setup_boundary_conditions s = Inr s1"
    using setup_boundary_conditions_succeeds [of s] f by auto
  obtain s2 where s2: "setup_coefficients_cn s1 = Inr s2"
    using setup_coefficients_cn_succeeds [of s1] setup_boundary_conditions_fields [OF s1] f
    by auto
  obtain s3 where s3: "traverse_grid_cn lu1 solve1 s2 = Inr s3"
    using traverse_grid_cn_solve1 by blast
  from barrier_row_of_call [OF s s1 s2 s3]
  have "grid s3 ! 0 ! 0 = 0" and "grid s3 ! 0 ! 1 = 0" by simp_all
  with s s1 s2 s3 show ?thesis by blast
qed

lemma do_put_demo_init: "FDCnDo_init 50 50 0 1 1 40 100 2 1 True = Inr do_put_demo"
  by (simp add: do_put_demo_def FDCnDo_init_def dS_do_def Let_def FDCnEu_init_def
      FDExplicitEu_init_def FiniteDifferences_init_def FiniteDifferences.defs
      FDExplicitEu.defs FDCnEu.defs FDCnDo.defs np_linspace_def upt_0_3)

lemma do_put_demo_boundary: "setup_boundary_conditions do_put_demo = Inr do_put_bounded"
  by (simp add: do_put_bounded_def do_put_demo_def FDCnEu_init_def
      FDExplicitEu_init_def FiniteDifferences_init_def FiniteDifferences.defs
      FDExplicitEu.defs FDCnEu.defs FDCnDo.defs
      setup_boundary_conditions_def dt_def discounted_def
      set_column_def set_row_init_def np_zeros2_def np_zeros_def
      np_arange_def upt_0_3 upt_2 eval_nat_numeral)

lemma do_put_demo_coefficients: "setup_coefficients_cn do_put_bounded = Inr do_put_ready"
  by (simp add: do_put_ready_def do_put_bounded_def do_put_demo_def FDCnEu_init_def
      FDExplicitEu_init_def FiniteDifferences_init_def FiniteDifferences.defs
      FDExplicitEu.defs FDCnEu.defs FDCnDo.defs
      setup_coefficients_cn_def dt_def Let_def power2_eq_square
      slice_def np_diag_def mat_add_def mat_sub_def mat_neg_def eval_nat_numeral)

lemma do_put_demo_traverse: "traverse_grid_cn lu1 solve1 do_put_ready = Inr do_put_ready"
  by (simp add: do_put_ready_def do_put_bounded_def do_put_demo_def FDCnEu_init_def
      FDExplicitEu_init_def FiniteDifferences_init_def FiniteDifferences.defs
      FDExplicitEu.defs FDCnEu.defs FDCnDo.defs
      traverse_grid_cn_def lu1_def solve1_def np_dot_def slice_def column_def
      set_column_slice_def upt_0_3 eval_nat_numeral)

text \<open>
  C8. A down-and-out put with barrier \<open>40\<close>, strike \<open>50\<close>, \<open>Smax = 100\<close>: the inherited put
  boundary writes \<open>(K - Smax) * exp(0) = -50\<close> into row \<open>0\<close>, the barrier row, and the
  traversal leaves it there.
\<close>

theorem barrier_row_put_counterexample:
  "FDCnDo_init 50 50 0 1 1 40 100 2 1 True = Inr do_put_demo \<and>
   setup_boundary_conditions do_put_demo = Inr do_put_bounded \<and>
   setup_coefficients_cn do_put_bounded = Inr do_put_ready \<and>
   traverse_grid_cn lu1 solve1 do_put_ready = Inr do_put_ready \<and>
   grid do_put_ready ! 0 ! 0 = - 50"
  using do_put_demo_init do_put_demo_boundary do_put_demo_coefficients do_put_demo_traverse
  by (simp add: do_put_ready_def do_put_bounded_def)

subsection \<open>The early-exercise floor in a sweep\<close>

lemma vec_set_Inr:
  "vec_set xs i v = Inr ys \<Longrightarrow> ys = xs[i := v] \<and> i < length xs"
  by (auto simp add: vec_set_def split: if_splits)

lemma vec_set_last_Inr:
  "vec_set_last xs v = Inr ys \<Longrightarrow> ys = xs[length xs - 1 := v] \<and> xs \<noteq> []"
  by (auto simp add: vec_set_last_def split: if_splits)

lemma calculate_payoff_floor:
  "calculate_payoff s k rhs old new = Inr v \<Longrightarrow> payoffs s ! k \<le> v"
  by (auto simp add: calculate_payoff_def Let_def split: if_splits)

lemma calculate_payoff_start_boundary_floor:
  "calculate_payoff_start_boundary s rhs old = Inr v \<Longrightarrow> payoffs s ! 0 \<le> v"
  by (auto simp add: calculate_payoff_start_boundary_def Let_def split: if_splits)

lemma calculate_payoff_end_boundary_floor:
  "calculate_payoff_end_boundary s rhs old new = Inr v \<Longrightarrow> last (payoffs s) \<le> v"
  by (auto simp add: calculate_payoff_end_boundary_def Let_def split: if_splits)

lemma psor_interior_floor:
  "psor_interior s rhs old ks new = Inr new' \<Longrightarrow>
   length new' = length new \<and>
   (\<forall>k<length new. k \<in> set ks \<or> payoffs s ! k \<le> new ! k \<longrightarrow> payoffs s ! k \<le> new' ! k)"
proof (induction ks arbitrary: new)
  case Nil
  then show ?case by simp
next
  case (Cons k ks)
  from Cons.prems obtain v new1 where v: "calculate_payoff s k rhs old new = Inr v"
    and n1: "vec_set new k v = Inr new1" and rest: "psor_interior s rhs old ks new1 = Inr new'"
    by (auto split: sum.splits)
  from vec_set_Inr [OF n1] have new1: "new1 = new[k := v]" and k: "k < length new" by simp_all
  note fl = calculate_payoff_floor [OF v]
  from Cons.IH [OF rest] have len: "length new' = length new1"
    and ih: "\<And>i. i < length new1 \<Longrightarrow> i \<in> set ks \<or> payoffs s ! i \<le> new1 ! i \<Longrightarrow>
                 payoffs s ! i \<le> new' ! i"
    by blast+
  have "payoffs s ! i \<le> new' ! i"
    if i: "i < length new" "i \<in> set (k # ks) \<or> payoffs s ! i \<le> new ! i" for i
  proof (cases "i = k")
    case True
    with fl k have "payoffs s ! i \<le> new1 ! i" by (simp add: new1)
    with i(1) show ?thesis by (intro ih) (simp_all add: new1)
  next
    case False
    with i(2) have "i \<in> set ks \<or> payoffs s ! i \<le> new1 ! i" by (auto simp add: new1)
    with i(1) show ?thesis by (intro ih) (simp_all add: new1)
  qed
  with len show ?case by (simp add: new1)
qed

lemma psor_sweep_floor:
  assumes sw: "psor_sweep s rhs old new = Inr new'"
  shows "length new' = length new"
    and "length new = M s - 1 \<Longrightarrow> length (payoffs s) = M s - 1 \<Longrightarrow> k < M s - 1 \<Longrightarrow>
         payoffs s ! k \<le> new' ! k"
proof -
  from sw obtain v0 new1 new2 vl where
    v0: "calculate_payoff_start_boundary s rhs old = Inr v0"
    and n1: "vec_set new 0 v0 = Inr new1"
    and n2: "psor_interior s rhs old [1..<M s - 2] new1 = Inr new2"
    and vl: "calculate_payoff_end_boundary s rhs old new2 = Inr vl"
    and n3: "vec_set_last new2 vl = Inr new'"
    by (auto simp add: psor_sweep_def split: sum.splits)
  from vec_set_Inr [OF n1] have new1: "new1 = new[0 := v0]" and pos: "0 < length new"
    by simp_all
  from psor_interior_floor [OF n2] have len2: "length new2 = length new1"
    and fl2: "\<And>i. i < length new1 \<Longrightarrow> i \<in> set [1..<M s - 2] \<or> payoffs s ! i \<le> new1 ! i \<Longrightarrow>
                  payoffs s ! i \<le> new2 ! i"
    by blast+
  from vec_set_last_Inr [OF n3] have new': "new' = new2[length new2 - 1 := vl]" by simp
  show len: "length new' = length new" by (simp add: new' len2 new1)
  assume shape: "length new = M s - 1" "length (payoffs s) = M s - 1" and k: "k < M s - 1"
  have l1: "length new1 = M s - 1" by (simp add: new1 shape)
  show "payoffs s ! k \<le> new' ! k"
  proof (cases "k = M s - 2")
    case True
    from shape k have "last (payoffs s) = payoffs s ! (M s - 2)"
      by (subst last_conv_nth) (auto simp add: numeral_2_eq_2)
    moreover from k True have "new' ! k = vl"
      by (simp add: new' len2 l1 numeral_2_eq_2)
    ultimately show ?thesis
      using calculate_payoff_end_boundary_floor [OF vl] True by simp
  next
    case False
    have "payoffs s ! k \<le> new2 ! k"
    proof (cases "k = 0")
      case True
      with calculate_payoff_start_boundary_floor [OF v0] pos
      have "payoffs s ! k \<le> new1 ! k" by (simp add: new1)
      with k l1 show ?thesis by (intro fl2) simp_all
    next
      case nz: False
      with False k have "k \<in> set [1..<M s - 2]" by auto
      with k l1 show ?thesis by (intro fl2) simp_all
    qed
    moreover from False k have "new' ! k = new2 ! k"
      by (simp add: new' len2 l1 numeral_2_eq_2)
    ultimately show ?thesis by simp
  qed
qed

lemma psor_while_floor:
  fixes s :: "'z FDCnAm_scheme"
  assumes "psor_while s rhs v = Some y"
  shows "\<forall>v'. y = Inr v' \<longrightarrow> length (new_values v) = M s - 1 \<longrightarrow>
           length (payoffs s) = M s - 1 \<longrightarrow> (\<forall>k<M s - 1. payoffs s ! k \<le> past v ! k) \<longrightarrow>
           length (new_values v') = M s - 1 \<and> (\<forall>k<M s - 1. payoffs s ! k \<le> past v' ! k)"
proof (rule psor_while.raw_induct [where P = "\<lambda>s rhs v y.
    \<forall>v'. y = Inr v' \<longrightarrow> length (new_values v) = M s - 1 \<longrightarrow>
      length (payoffs s) = M s - 1 \<longrightarrow> (\<forall>k<M s - 1. payoffs s ! k \<le> past v ! k) \<longrightarrow>
      length (new_values v') = M s - 1 \<and> (\<forall>k<M s - 1. payoffs s ! k \<le> past v' ! k)",
    OF _ assms])
  fix loop :: "'z FDCnAm_scheme \<Rightarrow> vec \<Rightarrow> psor_vars \<Rightarrow> (error + psor_vars) option"
    and s rhs v y
  assume ih: "\<And>s rhs v y. loop s rhs v = Some y \<Longrightarrow>
      \<forall>v'. y = Inr v' \<longrightarrow> length (new_values v) = M s - 1 \<longrightarrow>
        length (payoffs s) = M s - 1 \<longrightarrow> (\<forall>k<M s - 1. payoffs s ! k \<le> past v ! k) \<longrightarrow>
        length (new_values v') = M s - 1 \<and> (\<forall>k<M s - 1. payoffs s ! k \<le> past v' ! k)"
    and body: "(if tol s < error v
      then case psor_sweep s rhs (old_values v) (new_values v) of
           Inl e \<Rightarrow> Some (Inl e)
         | Inr new \<Rightarrow> loop s rhs
              \<lparr>error = norm_diff new (old_values v), old_values = new,
               new_values = new, past = new\<rparr>
      else Some (Inr v)) = Some y"
  show "\<forall>v'. y = Inr v' \<longrightarrow> length (new_values v) = M s - 1 \<longrightarrow>
      length (payoffs s) = M s - 1 \<longrightarrow> (\<forall>k<M s - 1. payoffs s ! k \<le> past v ! k) \<longrightarrow>
      length (new_values v') = M s - 1 \<and> (\<forall>k<M s - 1. payoffs s ! k \<le> past v' ! k)"
  proof (cases "tol s < error v")
    case False
    with body show ?thesis by auto
  next
    case True
    show ?thesis
    proof (cases "psor_sweep s rhs (old_values v) (new_values v)")
      case (Inl e)
      with True body show ?thesis by auto
    next
      case (Inr new)
      let ?v1 = "\<lparr>error = norm_diff new (old_values v), old_values = new,
                   new_values = new, past = new\<rparr>"
      from True Inr body have rec: "loop s rhs ?v1 = Some y" by simp
      note step = ih [OF rec]
      note fl = psor_sweep_floor [OF Inr]
      show ?thesis
      proof (intro allI impI)
        fix v'
        assume y: "y = Inr v'" and l: "length (new_values v) = M s - 1"
          and lp: "length (payoffs s) = M s - 1"
          and "\<forall>k<M s - 1. payoffs s ! k \<le> past v ! k"
        have "length (new_values ?v1) = M s - 1" using fl(1) l by simp
        moreover have "\<forall>k<M s - 1. payoffs s ! k \<le> past ?v1 ! k"
          using fl(2) [OF l lp] by simp
        ultimately show "length (new_values v') = M s - 1 \<and>
            (\<forall>k<M s - 1. payoffs s ! k \<le> past v' ! k)"
          using step y lp by blast
      qed
    qed
  qed
qed

lemma am_steps_floor:
  "am_steps s js aux new past_vals = Some (Inr (aux', new', past')) \<Longrightarrow>
   length new = M s - 1 \<Longrightarrow> length (payoffs s) = M s - 1 \<Longrightarrow>
   (\<forall>k<M s - 1. payoffs s ! k \<le> past_vals ! k) \<Longrightarrow>
   length new' = M s - 1 \<and> (\<forall>k<M s - 1. payoffs s ! k \<le> past' ! k)"
proof (induction js arbitrary: aux new past_vals)
  case Nil
  then show ?case by simp
next
  case (Cons j js)
  let ?aux = "aux[0 := alpha s ! 1 * (boundary_values s ! j + boundary_values s ! (j + 1))]"
  let ?rhs = "map2 (+) (np_dot (M2 s) past_vals) ?aux"
  let ?v0 = "\<lparr>error = float_max, old_values = past_vals, new_values = new, past = past_vals\<rparr>"
  from Cons.prems(1) obtain v where w: "psor_while s ?rhs ?v0 = Some (Inr v)"
    and rest: "am_steps s js ?aux (new_values v) (past v) = Some (Inr (aux', new', past'))"
    by (auto simp add: Let_def split: if_splits option.splits sum.splits)
  from psor_while_floor [OF w] Cons.prems(2-4)
  have "length (new_values v) = M s - 1" and "\<forall>k<M s - 1. payoffs s ! k \<le> past v ! k"
    by simp_all
  with Cons.IH [OF rest] Cons.prems(3) show ?case by blast
qed

subsection \<open>An American put, evaluated\<close>

lemmas am_demo_defs =
  am_demo_done_def am_demo_ready_def am_demo_bounded_def am_demo_def FDCnAm_init_def
  FDCnEu_init_def FDExplicitEu_init_def FiniteDifferences_init_def FiniteDifferences.defs
  FDExplicitEu.defs FDCnEu.defs FDCnAm.defs

lemma am_demo_boundary: "setup_boundary_conditions_am am_demo = Inr am_demo_bounded"
  by (simp add: am_demo_defs setup_boundary_conditions_am_def dt_def discounted_def Let_def
      np_linspace_def np_arange_def slice_def upt_4 upt_2 eval_nat_numeral)

lemma am_demo_coefficients: "setup_coefficients_cn am_demo_bounded = Inr am_demo_ready"
  by (simp add: am_demo_defs setup_coefficients_cn_def dt_def Let_def power2_eq_square
      np_arange_def upt_4 slice_def np_diag_def mat_add_def mat_sub_def mat_neg_def
      eval_nat_numeral)

lemma norm_diff_demo: "norm_diff [1, 2/3] [1, 0] = 2/3"
proof -
  have "norm_diff [1, 2/3] [1, 0] = sqrt ((2/3)\<^sup>2)" by (simp add: norm_diff_def)
  also have "\<dots> = \<bar>2/3\<bar>" by (rule real_sqrt_abs)
  finally show ?thesis by simp
qed

lemma float_max_gt_one: "1 < float_max"
  by (simp add: float_max_def)

lemma am_demo_sweep: "psor_sweep am_demo_ready [3/2, 1] [1, 0] [0, 0] = Inr [1, 2/3]"
  by (simp add: am_demo_defs psor_sweep_def calculate_payoff_start_boundary_def
      calculate_payoff_end_boundary_def vec_set_def vec_set_last_def Let_def
      eval_nat_numeral)

lemma am_demo_tol: "tol am_demo_ready = 1"
  by (simp add: am_demo_defs)

lemma am_demo_while:
  "psor_while am_demo_ready [3/2, 1]
     \<lparr>error = float_max, old_values = [1, 0], new_values = [0, 0], past = [1, 0]\<rparr> =
   Some (Inr \<lparr>error = 2/3, old_values = [1, 2/3], new_values = [1, 2/3], past = [1, 2/3]\<rparr>)"
  apply (subst psor_while.simps)
  apply (simp add: am_demo_tol float_max_gt_one am_demo_sweep norm_diff_demo)
  apply (subst psor_while.simps)
  apply (simp add: am_demo_tol)
  done

lemma am_demo_traverse: "traverse_grid_am am_demo_ready = Some (Inr am_demo_done)"
proof -
  have M: "M am_demo_ready = 3" and N: "N am_demo_ready = 1"
    and pv: "past_values am_demo_ready = [1, 0]" and al: "alpha am_demo_ready = [0, 1/4, 1, 9/4]"
    and bv: "boundary_values am_demo_ready = [2, 2]"
    and m2: "M2 am_demo_ready = [ [1/2, 1/4], [1, - 1]]"
    by (simp_all add: am_demo_defs)
  have "am_steps am_demo_ready [0] [0, 0] [0, 0] [1, 0] = Some (Inr ([1, 0], [1, 2/3], [1, 2/3]))"
    by (simp add: al bv m2 np_dot_def Let_def am_demo_while)
  then show ?thesis
    by (simp add: traverse_grid_am_def M N pv bv np_zeros_def eval_nat_numeral)
      (simp add: am_demo_done_def)
qed

subsection \<open>The early-exercise floor over the traversal\<close>

text \<open>
  C5. Every sweep of the PSOR loop leaves each entry of \<open>new_values\<close> at or above the
  payoff of its node (the three update functions return \<open>max(payoffs[k], ...)\<close> and
  together write every index), so the vector committed as \<open>past_values\<close> after any
  sequence of time steps, and at the end of \<^verbatim>\<open>traverse_grid\<close>, satisfies
  \<open>past_values[k] \<ge> payoffs[k]\<close> for every interior index \<open>k\<close>.
\<close>

theorem psor_values_above_payoff:
  fixes s :: "'z FDCnAm_scheme"
  assumes lp: "length (payoffs s) = M s - 1"
  shows "(\<forall>rhs old new new'.
            length new = M s - 1 \<and> psor_sweep s rhs old new = Inr new' \<longrightarrow>
            (\<forall>k<M s - 1. payoffs s ! k \<le> new' ! k)) \<and>
         (\<forall>js aux new pv aux' new' pv'.
            length new = M s - 1 \<and> (\<forall>k<M s - 1. payoffs s ! k \<le> pv ! k) \<and>
            am_steps s js aux new pv = Some (Inr (aux', new', pv')) \<longrightarrow>
            (\<forall>k<M s - 1. payoffs s ! k \<le> pv' ! k)) \<and>
         (\<forall>s'. (\<forall>k<M s - 1. payoffs s ! k \<le> past_values s ! k) \<and>
               traverse_grid_am s = Some (Inr s') \<longrightarrow>
               payoffs s' = payoffs s \<and> (\<forall>k<M s - 1. payoffs s' ! k \<le> past_values s' ! k))"
proof (intro conjI allI impI)
  fix rhs old new new' k
  assume "length new = M s - 1 \<and> psor_sweep s rhs old new = Inr new'" and "k < M s - 1"
  then show "payoffs s ! k \<le> new' ! k"
    using psor_sweep_floor(2) [of s rhs old new new' k] lp by blast
next
  fix js aux new pv aux' new' pv' k
  assume "length new = M s - 1 \<and> (\<forall>k<M s - 1. payoffs s ! k \<le> pv ! k) \<and>
            am_steps s js aux new pv = Some (Inr (aux', new', pv'))" and "k < M s - 1"
  then show "payoffs s ! k \<le> pv' ! k"
    using am_steps_floor [of s js aux new pv aux' new' pv'] lp by blast
next
  fix s' :: "'z FDCnAm_scheme"
  assume a: "(\<forall>k<M s - 1. payoffs s ! k \<le> past_values s ! k) \<and>
               traverse_grid_am s = Some (Inr s')"
  then obtain aux new pv where
    st: "am_steps s (rev [0..<N s]) (np_zeros (M s - 1)) (np_zeros (M s - 1)) (past_values s)
           = Some (Inr (aux, new, pv))"
    and s': "s' = s\<lparr>past_values := pv, values_am := [boundary_values s ! 0] @ new @ [0]\<rparr>"
    by (auto simp add: traverse_grid_am_def split: if_splits option.splits sum.splits)
  show "payoffs s' = payoffs s" by (simp add: s')
  fix k assume "k < M s - 1"
  with am_steps_floor [OF st _ lp] a show "payoffs s' ! k \<le> past_values s' ! k"
    by (simp add: s' np_zeros_def)
qed

theorem psor_values_above_payoff_witness:
  "length (payoffs am_demo_ready) = M am_demo_ready - 1 \<and>
   traverse_grid_am am_demo_ready = Some (Inr am_demo_done) \<and>
   payoffs am_demo_done = [1, 0] \<and> past_values am_demo_done = [1, 2/3] \<and>
   payoffs am_demo_done ! 0 \<le> past_values am_demo_done ! 0 \<and>
   payoffs am_demo_done ! 1 \<le> past_values am_demo_done ! 1"
proof -
  have lp: "length (payoffs am_demo_ready) = M am_demo_ready - 1"
    by (simp add: am_demo_defs)
  have init: "\<forall>k<M am_demo_ready - 1. payoffs am_demo_ready ! k \<le> past_values am_demo_ready ! k"
    by (simp add: am_demo_defs)
  from psor_values_above_payoff [OF lp] init am_demo_traverse
  have "\<forall>k<M am_demo_ready - 1. payoffs am_demo_done ! k \<le> past_values am_demo_done ! k"
    by blast
  moreover have "(0::nat) < M am_demo_ready - 1" "(1::nat) < M am_demo_ready - 1"
    by (simp_all add: am_demo_defs)
  ultimately have "payoffs am_demo_done ! 0 \<le> past_values am_demo_done ! 0"
    and "payoffs am_demo_done ! 1 \<le> past_values am_demo_done ! 1" by blast+
  moreover have "payoffs am_demo_done = [1, 0]" "past_values am_demo_done = [1, 2/3]"
    by (simp_all add: am_demo_defs)
  ultimately show ?thesis using lp am_demo_traverse by simp
qed

subsection \<open>The exit of the PSOR loop\<close>

lemma psor_while_step:
  "psor_while s rhs v =
     (if tol s < error v
      then case psor_step s rhs v of Inl e \<Rightarrow> Some (Inl e) | Inr v1 \<Rightarrow> psor_while s rhs v1
      else Some (Inr v))"
  by (subst psor_while.simps) (simp add: psor_step_def split: sum.splits)

lemma psor_iter_returns:
  "psor_iter s rhs n v = Inr v' \<Longrightarrow> error v' \<le> tol s \<Longrightarrow>
   (\<And>m. m < n \<Longrightarrow> \<exists>u. psor_iter s rhs m v = Inr u \<and> tol s < error u) \<Longrightarrow>
   psor_while s rhs v = Some (Inr v')"
proof (induction n arbitrary: v)
  case 0
  then show ?case by (simp add: psor_while_step)
next
  case (Suc n)
  from Suc.prems(3) [of 0] have go: "tol s < error v" by simp
  from Suc.prems(1) obtain v1 where v1: "psor_step s rhs v = Inr v1"
    and it: "psor_iter s rhs n v1 = Inr v'"
    by (auto split: sum.splits)
  have "\<exists>u. psor_iter s rhs m v1 = Inr u \<and> tol s < error u" if "m < n" for m
    using Suc.prems(3) [of "Suc m"] that v1 by simp
  with Suc.IH [OF it Suc.prems(2)] have "psor_while s rhs v1 = Some (Inr v')" by blast
  with go v1 show ?case by (subst psor_while_step) simp
qed

lemma psor_while_trace:
  fixes s :: "'z FDCnAm_scheme"
  assumes "psor_while s rhs v = Some y"
  shows "(\<forall>v'. y = Inr v' \<longrightarrow>
            (\<exists>n. psor_iter s rhs n v = Inr v' \<and> error v' \<le> tol s \<and>
                 (\<forall>m<n. \<exists>u. psor_iter s rhs m v = Inr u \<and> tol s < error u))) \<and>
         (\<forall>e. y = Inl e \<longrightarrow> (\<exists>n u. psor_iter s rhs n v = Inr u \<and> psor_step s rhs u = Inl e))"
proof (rule psor_while.raw_induct [where P = "\<lambda>s rhs v y.
    (\<forall>v'. y = Inr v' \<longrightarrow>
            (\<exists>n. psor_iter s rhs n v = Inr v' \<and> error v' \<le> tol s \<and>
                 (\<forall>m<n. \<exists>u. psor_iter s rhs m v = Inr u \<and> tol s < error u))) \<and>
    (\<forall>e. y = Inl e \<longrightarrow> (\<exists>n u. psor_iter s rhs n v = Inr u \<and> psor_step s rhs u = Inl e))",
    OF _ assms])
  fix loop :: "'z FDCnAm_scheme \<Rightarrow> vec \<Rightarrow> psor_vars \<Rightarrow> (error + psor_vars) option"
    and s rhs v y
  assume ih: "\<And>s rhs v y. loop s rhs v = Some y \<Longrightarrow>
      (\<forall>v'. y = Inr v' \<longrightarrow>
            (\<exists>n. psor_iter s rhs n v = Inr v' \<and> error v' \<le> tol s \<and>
                 (\<forall>m<n. \<exists>u. psor_iter s rhs m v = Inr u \<and> tol s < error u))) \<and>
      (\<forall>e. y = Inl e \<longrightarrow> (\<exists>n u. psor_iter s rhs n v = Inr u \<and> psor_step s rhs u = Inl e))"
    and body: "(if tol s < error v
      then case psor_sweep s rhs (old_values v) (new_values v) of
           Inl e \<Rightarrow> Some (Inl e)
         | Inr new \<Rightarrow> loop s rhs
              \<lparr>error = norm_diff new (old_values v), old_values = new,
               new_values = new, past = new\<rparr>
      else Some (Inr v)) = Some y"
  show "(\<forall>v'. y = Inr v' \<longrightarrow>
            (\<exists>n. psor_iter s rhs n v = Inr v' \<and> error v' \<le> tol s \<and>
                 (\<forall>m<n. \<exists>u. psor_iter s rhs m v = Inr u \<and> tol s < error u))) \<and>
        (\<forall>e. y = Inl e \<longrightarrow> (\<exists>n u. psor_iter s rhs n v = Inr u \<and> psor_step s rhs u = Inl e))"
  proof (cases "tol s < error v")
    case False
    with body have y: "y = Inr v" by simp
    have "psor_iter s rhs 0 v = Inr v \<and> error v \<le> tol s \<and>
        (\<forall>m<0. \<exists>u. psor_iter s rhs m v = Inr u \<and> tol s < error u)"
      using False by simp
    with y show ?thesis by blast
  next
    case True
    show ?thesis
    proof (cases "psor_sweep s rhs (old_values v) (new_values v)")
      case (Inl e)
      with True body have y: "y = Inl e" by simp
      have "psor_iter s rhs 0 v = Inr v \<and> psor_step s rhs v = Inl e"
        using Inl by (simp add: psor_step_def)
      with y show ?thesis by blast
    next
      case (Inr new)
      let ?v1 = "\<lparr>error = norm_diff new (old_values v), old_values = new,
                   new_values = new, past = new\<rparr>"
      from True Inr body have rec: "loop s rhs ?v1 = Some y" by simp
      have st: "psor_step s rhs v = Inr ?v1" using Inr by (simp add: psor_step_def)
      note step = ih [OF rec]
      show ?thesis
      proof (intro conjI allI impI)
        fix v' assume "y = Inr v'"
        with step obtain n where n: "psor_iter s rhs n ?v1 = Inr v'" "error v' \<le> tol s"
          "\<forall>m<n. \<exists>u. psor_iter s rhs m ?v1 = Inr u \<and> tol s < error u"
          by blast
        have "\<exists>u. psor_iter s rhs m v = Inr u \<and> tol s < error u" if "m < Suc n" for m
        proof (cases m)
          case 0
          with True show ?thesis by simp
        next
          case (Suc m')
          with that n(3) st show ?thesis by simp
        qed
        moreover have "psor_iter s rhs (Suc n) v = Inr v'" using n(1) st by simp
        ultimately show "\<exists>n. psor_iter s rhs n v = Inr v' \<and> error v' \<le> tol s \<and>
                 (\<forall>m<n. \<exists>u. psor_iter s rhs m v = Inr u \<and> tol s < error u)"
          using n(2) by blast
      next
        fix e assume "y = Inl e"
        with step obtain n u where "psor_iter s rhs n ?v1 = Inr u" "psor_step s rhs u = Inl e"
          by blast
        then have "psor_iter s rhs (Suc n) v = Inr u \<and> psor_step s rhs u = Inl e"
          using st by simp
        then show "\<exists>n u. psor_iter s rhs n v = Inr u \<and> psor_step s rhs u = Inl e" by blast
      qed
    qed
  qed
qed

text \<open>
  C6, as the code has it. The loop returns normally exactly when some number \<open>n\<close> of
  sweeps ends with \<open>error \<le> tol\<close> while every earlier test found \<open>tol < error\<close>, and it
  then returns the variables of that sweep: it exits at the first sweep whose error does
  not exceed the tolerance, and nothing else ends it.
\<close>

theorem psor_while_exits_at_first_converged_sweep:
  fixes s :: "'z FDCnAm_scheme"
  shows "psor_while s rhs v = Some (Inr v') \<longleftrightarrow>
     (\<exists>n. psor_iter s rhs n v = Inr v' \<and> error v' \<le> tol s \<and>
          (\<forall>m<n. \<exists>u. psor_iter s rhs m v = Inr u \<and> tol s < error u))"
proof
  assume "psor_while s rhs v = Some (Inr v')"
  from psor_while_trace [OF this]
  show "\<exists>n. psor_iter s rhs n v = Inr v' \<and> error v' \<le> tol s \<and>
          (\<forall>m<n. \<exists>u. psor_iter s rhs m v = Inr u \<and> tol s < error u)"
    by blast
next
  assume "\<exists>n. psor_iter s rhs n v = Inr v' \<and> error v' \<le> tol s \<and>
          (\<forall>m<n. \<exists>u. psor_iter s rhs m v = Inr u \<and> tol s < error u)"
  then obtain n where "psor_iter s rhs n v = Inr v'" "error v' \<le> tol s"
    "\<And>m. m < n \<Longrightarrow> \<exists>u. psor_iter s rhs m v = Inr u \<and> tol s < error u"
    by blast
  then show "psor_while s rhs v = Some (Inr v')" by (rule psor_iter_returns)
qed

subsection \<open>A tolerance the loop never meets\<close>

lemma norm_diff_nonneg: "0 \<le> norm_diff xs ys"
  unfolding norm_diff_def
  by (intro real_sqrt_ge_zero sum_list_nonneg) auto

lemma psor_step_Inr:
  assumes "psor_step s rhs v = Inr v1"
  shows "0 \<le> error v1" and "length (old_values v1) = length (new_values v)"
    and "length (new_values v1) = length (new_values v)"
proof -
  from assms obtain new where sw: "psor_sweep s rhs (old_values v) (new_values v) = Inr new"
    and v1: "v1 = \<lparr>error = norm_diff new (old_values v), old_values = new,
                   new_values = new, past = new\<rparr>"
    by (auto simp add: psor_step_def split: sum.splits)
  show "0 \<le> error v1" by (simp add: v1 norm_diff_nonneg)
  show "length (old_values v1) = length (new_values v)"
    and "length (new_values v1) = length (new_values v)"
    using psor_sweep_floor(1) [OF sw] by (simp_all add: v1)
qed

lemma psor_iter_Inr:
  "psor_iter s rhs n v = Inr v' \<Longrightarrow> 0 \<le> error v \<Longrightarrow>
   length (old_values v) = length (new_values v) \<Longrightarrow>
   0 \<le> error v' \<and> length (old_values v') = length (new_values v) \<and>
   length (new_values v') = length (new_values v)"
proof (induction n arbitrary: v)
  case 0
  then show ?case by simp
next
  case (Suc n)
  from Suc.prems(1) obtain v1 where v1: "psor_step s rhs v = Inr v1"
    and it: "psor_iter s rhs n v1 = Inr v'"
    by (auto split: sum.splits)
  note p = psor_step_Inr [OF v1]
  from Suc.IH [OF it p(1)] p(2,3) show ?case by simp
qed

lemma psor_interior_succeeds:
  "psor_shapes s rhs \<Longrightarrow> length old = M s - 1 \<Longrightarrow> length new = M s - 1 \<Longrightarrow>
   (\<And>k. k \<in> set ks \<Longrightarrow> 1 \<le> k \<and> k < M s - 2) \<Longrightarrow>
   \<exists>new'. psor_interior s rhs old ks new = Inr new'"
proof (induction ks arbitrary: new)
  case Nil
  then show ?case by simp
next
  case (Cons k ks)
  from Cons.prems(4) [of k] have k: "1 \<le> k" "k < M s - 2" by simp_all
  with Cons.prems(1-3) have "\<exists>v. calculate_payoff s k rhs old new = Inr v"
    by (auto simp add: calculate_payoff_def psor_shapes_def Let_def)
  then obtain v where v: "calculate_payoff s k rhs old new = Inr v" by blast
  from k Cons.prems(3) have n1: "vec_set new k v = Inr (new[k := v])"
    by (simp add: vec_set_def)
  have "\<exists>new'. psor_interior s rhs old ks (new[k := v]) = Inr new'"
    using Cons.prems by (intro Cons.IH) simp_all
  with v n1 show ?case by simp
qed

lemma psor_sweep_succeeds:
  assumes sh: "psor_shapes s rhs" and lo: "length old = M s - 1" and ln: "length new = M s - 1"
  shows "\<exists>new'. psor_sweep s rhs old new = Inr new'"
proof -
  from sh have m: "3 \<le> M s" by (simp add: psor_shapes_def)
  from sh lo m have "\<exists>v0. calculate_payoff_start_boundary s rhs old = Inr v0"
    by (auto simp add: calculate_payoff_start_boundary_def psor_shapes_def Let_def)
  then obtain v0 where v0: "calculate_payoff_start_boundary s rhs old = Inr v0" by blast
  from ln m have n1: "vec_set new 0 v0 = Inr (new[0 := v0])" by (simp add: vec_set_def)
  obtain new2 where n2: "psor_interior s rhs old [1..<M s - 2] (new[0 := v0]) = Inr new2"
    using psor_interior_succeeds [OF sh lo, of "new[0 := v0]" "[1..<M s - 2]"] ln by auto
  from psor_interior_floor [OF n2] ln have l2: "length new2 = M s - 1" by simp
  from sh lo l2 m have "\<exists>vl. calculate_payoff_end_boundary s rhs old new2 = Inr vl"
    by (auto simp add: calculate_payoff_end_boundary_def psor_shapes_def Let_def)
  then obtain vl where vl: "calculate_payoff_end_boundary s rhs old new2 = Inr vl" by blast
  from l2 m have "new2 \<noteq> []" by auto
  then have "vec_set_last new2 vl = Inr (new2[length new2 - 1 := vl])"
    by (simp add: vec_set_last_def)
  with v0 n1 n2 vl show ?thesis by (simp add: psor_sweep_def)
qed

lemma psor_while_negative_tol:
  fixes s :: "'z FDCnAm_scheme"
  assumes tol: "tol s < 0" and sh: "psor_shapes s rhs" and e: "0 \<le> error v"
    and lo: "length (old_values v) = M s - 1" and ln: "length (new_values v) = M s - 1"
  shows "psor_while s rhs v = None"
proof (cases "psor_while s rhs v")
  case None
  then show ?thesis .
next
  case (Some y)
  note tr = psor_while_trace [OF Some]
  have eq: "length (old_values v) = length (new_values v)" using lo ln by simp
  show ?thesis
  proof (cases y)
    case (Inr v')
    with tr obtain n where "psor_iter s rhs n v = Inr v'" "error v' \<le> tol s" by blast
    with psor_iter_Inr [OF _ e eq] tol show ?thesis by fastforce
  next
    case (Inl err)
    with tr obtain n u where u: "psor_iter s rhs n v = Inr u" and f: "psor_step s rhs u = Inl err"
      by blast
    from psor_iter_Inr [OF u e eq] lo ln
    have "length (old_values u) = M s - 1" "length (new_values u) = M s - 1" by simp_all
    from psor_sweep_succeeds [OF sh this] f show ?thesis
      by (auto simp add: psor_step_def)
  qed
qed

lemma float_max_nonneg: "0 \<le> float_max"
  by (simp add: float_max_def)

lemma am_negative_tol_boundary:
  "setup_boundary_conditions_am (FDCnAm_init 1 2 0 1 1 3 3 1 1 (- 1) True) =
     Inr (am_demo_bounded\<lparr>tol := - 1\<rparr>)"
  by (simp add: am_demo_defs setup_boundary_conditions_am_def dt_def discounted_def Let_def
      np_linspace_def np_arange_def slice_def upt_4 upt_2 eval_nat_numeral)

lemma am_negative_tol_coefficients:
  "setup_coefficients_cn (am_demo_bounded\<lparr>tol := - 1\<rparr>) = Inr am_negative_tol"
  by (simp add: am_negative_tol_def am_demo_defs setup_coefficients_cn_def dt_def Let_def
      power2_eq_square np_arange_def upt_4 slice_def np_diag_def mat_add_def mat_sub_def
      mat_neg_def eval_nat_numeral)

lemma am_negative_tol_traverse: "traverse_grid_am am_negative_tol = None"
proof -
  let ?s = am_negative_tol
  let ?rhs = "map2 (+) (np_dot (M2 ?s) [1, 0]) [1, 0]"
  have f: "M ?s = 3" "N ?s = 1" "past_values ?s = [1, 0]" "alpha ?s = [0, 1/4, 1, 9/4]"
    "boundary_values ?s = [2, 2]" "tol ?s = - 1"
    by (simp_all add: am_negative_tol_def am_demo_defs)
  have sh: "psor_shapes ?s ?rhs"
    by (simp add: psor_shapes_def am_negative_tol_def am_demo_defs np_dot_def)
  have "psor_while ?s ?rhs
      \<lparr>error = float_max, old_values = [1, 0], new_values = [0, 0], past = [1, 0]\<rparr> = None"
    by (rule psor_while_negative_tol [OF _ sh]) (simp_all add: f float_max_nonneg)
  then have "am_steps ?s [0] [0, 0] [0, 0] [1, 0] = None"
    by (simp add: f Let_def)
  then show ?thesis
    by (simp add: traverse_grid_am_def f np_zeros_def eval_nat_numeral)
qed

text \<open>
  C6. With \<open>tol = -1\<close> the test \<open>tol < error\<close> holds after every sweep, the error being a
  norm: for the American put with \<open>M = 3\<close>, \<open>N = 1\<close> the pricing never returns, neither
  a price nor a failure.
\<close>

theorem psor_negative_tolerance_counterexample:
  "price_am (FDCnAm_init 1 2 0 1 1 3 3 1 1 (- 1) True) = None"
  by (simp only: price_am_def am_negative_tol_boundary am_negative_tol_coefficients
      am_negative_tol_traverse sum.case option.case)

theorem psor_while_exits_at_first_converged_sweep_witness:
  "psor_iter am_demo_ready [3/2, 1] 1
     \<lparr>error = float_max, old_values = [1, 0], new_values = [0, 0], past = [1, 0]\<rparr> =
     Inr \<lparr>error = 2/3, old_values = [1, 2/3], new_values = [1, 2/3], past = [1, 2/3]\<rparr> \<and>
   (2/3 :: real) \<le> tol am_demo_ready \<and> tol am_demo_ready < float_max \<and>
   psor_while am_demo_ready [3/2, 1]
     \<lparr>error = float_max, old_values = [1, 0], new_values = [0, 0], past = [1, 0]\<rparr> =
     Some (Inr \<lparr>error = 2/3, old_values = [1, 2/3], new_values = [1, 2/3], past = [1, 2/3]\<rparr>)"
proof -
  let ?v0 = "\<lparr>error = float_max, old_values = [1, 0], new_values = [0, 0], past = [1, 0]\<rparr>"
  let ?v1 = "\<lparr>error = 2/3, old_values = [1, 2/3], new_values = [1, 2/3], past = [1, 2/3]\<rparr>"
  have it: "psor_iter am_demo_ready [3/2, 1] 1 ?v0 = Inr ?v1"
    by (simp add: psor_step_def am_demo_sweep norm_diff_demo)
  have le: "error ?v1 \<le> tol am_demo_ready" by (simp add: am_demo_tol)
  have lt: "tol am_demo_ready < float_max" by (simp add: am_demo_tol float_max_gt_one)
  have "\<forall>m<1. \<exists>u. psor_iter am_demo_ready [3/2, 1] m ?v0 = Inr u \<and> tol am_demo_ready < error u"
    using lt by simp
  with it le have "\<exists>n. psor_iter am_demo_ready [3/2, 1] n ?v0 = Inr ?v1 \<and>
      error ?v1 \<le> tol am_demo_ready \<and>
      (\<forall>m<n. \<exists>u. psor_iter am_demo_ready [3/2, 1] m ?v0 = Inr u \<and> tol am_demo_ready < error u)"
    by blast
  then have "psor_while am_demo_ready [3/2, 1] ?v0 = Some (Inr ?v1)"
    by (simp only: psor_while_exits_at_first_converged_sweep)
  with it le lt show ?thesis by simp
qed

subsection \<open>Interpolation at the nodes\<close>

text \<open>
  C9. On the price axis \<open>linspace(lo, Smax, M+1)\<close> with \<open>lo < Smax\<close> (\<open>lo = 0\<close>, or the
  barrier for the down-and-out variant), interpolating at the price of node \<open>i\<close> returns
  the value stored for that node: \<open>grid[i,0]\<close> for the schemes that interpolate the
  grid, \<open>values[i]\<close> for the American variant.
\<close>

theorem interpolation_at_node:
  fixes s :: "'z FiniteDifferences_scheme" and sa :: "'y FDCnAm_scheme"
  shows "(boundary_conds s = np_linspace lo (Smax s) (M s + 1) \<and> lo < Smax s \<and>
          length (grid s) = M s + 1 \<and> i \<le> M s \<longrightarrow>
          interpolate (s\<lparr>S0 := boundary_conds s ! i\<rparr>) = Inr (grid s ! i ! 0)) \<and>
         (boundary_conds sa = np_linspace lo (Smax sa) (M sa + 1) \<and> lo < Smax sa \<and>
          length (values_am sa) = M sa + 1 \<and> i \<le> M sa \<longrightarrow>
          interpolate_am (sa\<lparr>S0 := boundary_conds sa ! i\<rparr>) = Inr (values_am sa ! i))"
proof (intro conjI impI)
  assume a: "boundary_conds s = np_linspace lo (Smax s) (M s + 1) \<and> lo < Smax s \<and>
          length (grid s) = M s + 1 \<and> i \<le> M s"
  then have srt: "sorted_wrt (<) (boundary_conds s)" by (simp add: np_linspace_sorted)
  from a have "np_interp (boundary_conds s ! i) (boundary_conds s) (column (grid s) 0) =
      Inr (column (grid s) 0 ! i)"
    by (intro np_interp_knot [OF srt]) simp_all
  with a show "interpolate (s\<lparr>S0 := boundary_conds s ! i\<rparr>) = Inr (grid s ! i ! 0)"
    by (simp add: interpolate_def column_nth)
next
  assume a: "boundary_conds sa = np_linspace lo (Smax sa) (M sa + 1) \<and> lo < Smax sa \<and>
          length (values_am sa) = M sa + 1 \<and> i \<le> M sa"
  then have srt: "sorted_wrt (<) (boundary_conds sa)" by (simp add: np_linspace_sorted)
  from a have "np_interp (boundary_conds sa ! i) (boundary_conds sa) (values_am sa) =
      Inr (values_am sa ! i)"
    by (intro np_interp_knot [OF srt]) simp_all
  then show "interpolate_am (sa\<lparr>S0 := boundary_conds sa ! i\<rparr>) = Inr (values_am sa ! i)"
    by (simp add: interpolate_am_def)
qed

theorem interpolation_at_node_witness:
  "boundary_conds (traverse_grid explicit_demo_ready) = np_linspace 0 4 5 \<and>
   boundary_conds (traverse_grid explicit_demo_ready) ! 3 = 3 \<and>
   interpolate ((traverse_grid explicit_demo_ready)\<lparr>S0 := 3\<rparr>) = Inr 2 \<and>
   boundary_conds am_demo_done = np_linspace 0 3 4 \<and>
   boundary_conds am_demo_done ! 2 = 2 \<and>
   interpolate_am (am_demo_done\<lparr>S0 := 2\<rparr>) = Inr (2/3)"
proof -
  let ?s = "traverse_grid explicit_demo_ready"
  have e: "boundary_conds ?s = np_linspace 0 (Smax ?s) (M ?s + 1) \<and> 0 < Smax ?s \<and>
      length (grid ?s) = M ?s + 1 \<and> 3 \<le> M ?s"
    by (simp add: traverse_grid_def explicit_demo_ready_def np_linspace_def upt_5)
  have ev: "boundary_conds ?s ! 3 = 3" "grid ?s ! 3 ! 0 = 2"
    "boundary_conds ?s = np_linspace 0 4 5"
    by (simp_all add: explicit_demo_traverse)
      (simp_all add: traverse_grid_def explicit_demo_ready_def np_linspace_def upt_5)
  have am: "boundary_conds am_demo_done = np_linspace 0 (Smax am_demo_done) (M am_demo_done + 1) \<and>
      0 < Smax am_demo_done \<and> length (values_am am_demo_done) = M am_demo_done + 1 \<and>
      2 \<le> M am_demo_done"
    by (simp add: am_demo_defs np_linspace_def upt_4)
  have av: "boundary_conds am_demo_done ! 2 = 2" "values_am am_demo_done ! 2 = 2/3"
    "boundary_conds am_demo_done = np_linspace 0 3 4"
    by (simp_all add: am_demo_defs np_linspace_def upt_4)
  from interpolation_at_node [of ?s 0 3 am_demo_done] e
  have "interpolate (?s\<lparr>S0 := boundary_conds ?s ! 3\<rparr>) = Inr (grid ?s ! 3 ! 0)" by blast
  moreover from interpolation_at_node [of am_demo_done 0 2 am_demo_done] am
  have "interpolate_am (am_demo_done\<lparr>S0 := boundary_conds am_demo_done ! 2\<rparr>) =
      Inr (values_am am_demo_done ! 2)" by blast
  ultimately show ?thesis using ev av by simp
qed

end
